theory Spec2Isabelle
  imports Complex_Main "HOL-Library.Char_ord" "HOL-Library.List_Lexorder" "HOL-Library.Product_Lexorder"
    "HOL-Library.Option_ord"
begin

section \<open>Python strings and timestamps\<close>

text \<open>
  A Python \<open>str\<close> is modelled as a \<open>string\<close> whose characters are the code points
  below 256.  \<open>str.strip()\<close> removes the characters for which \<open>str.isspace\<close> holds; in
  that range they are TAB, LF, VT, FF, CR, FS, GS, RS, US, SPACE, NEL and NBSP.

  A \<open>datetime\<close> is an instant in UTC, counted in microseconds, so \<open>_coerce_utc\<close> (which
  only attaches the UTC zone to a naive value) is the identity on instants, and
  \<open>timedelta(seconds=n)\<close> is \<open>n * 1000000\<close>.
\<close>

definition py_isspace :: "char \<Rightarrow> bool" where
  "py_isspace c = (of_char c \<in> {9, 10, 11, 12, 13, 28, 29, 30, 31, 32, 133, 160 :: nat})"

definition py_strip :: "string \<Rightarrow> string" where
  "py_strip s = rev (dropWhile py_isspace (rev (dropWhile py_isspace s)))"

type_synonym datetime = int

definition timedelta_seconds :: "int \<Rightarrow> int" where
  "timedelta_seconds n = n * 1000000"

definition coerce_utc :: "datetime option \<Rightarrow> datetime option" where
  "coerce_utc v = (case v of None \<Rightarrow> None | Some t \<Rightarrow> Some t)"

section \<open>Job coordinator (dedupfs/jobs/service.py)\<close>

subsection \<open>Rows, settings, errors\<close>

datatype JobKind = SCAN | HASH | DELETE | THUMBNAIL

datatype JobStatus = PENDING | RUNNING | COMPLETED | FAILED | CANCELLED | RETRYABLE

text \<open>
  The \<open>jobs\<close> table row (class \<open>Job\<close>).  \<open>JobSnapshot\<close> has the same fields and
  \<open>_to_snapshot\<close> copies each of them, so a snapshot is the row value itself.
  \<open>progress\<close> is a Python float; the model keeps the rational it denotes.
\<close>

record Job =
  job_id :: string
  kind :: JobKind
  status :: JobStatus
  dry_run :: bool
  worker_id :: "string option"
  worker_heartbeat_at :: "datetime option"
  lease_expires_at :: "datetime option"
  progress :: rat
  total_items :: "int option"
  processed_items :: int
  payload :: "(string \<times> string) list"
  error_code :: "string option"
  error_message :: "string option"
  created_at :: datetime
  updated_at :: datetime
  started_at :: "datetime option"
  finished_at :: "datetime option"

record Settings =
  s_dry_run :: bool
  s_allow_real_delete :: bool
  s_job_lock_ttl_seconds :: int

datatype job_error =
    JobConflictError
  | JobNotFoundError
  | InvalidJobStateError
  | JobPolicyError
  | ValueError
  | IntegrityError

definition to_snapshot :: "Job \<Rightarrow> Job" where
  "to_snapshot job = job"

definition lease_delta :: "Settings \<Rightarrow> int" where
  "lease_delta cfg = timedelta_seconds (s_job_lock_ttl_seconds cfg)"

fun ALLOWED_TRANSITIONS :: "JobStatus \<Rightarrow> JobStatus set" where
  "ALLOWED_TRANSITIONS PENDING = {RUNNING, CANCELLED}"
| "ALLOWED_TRANSITIONS RUNNING = {COMPLETED, FAILED, CANCELLED, RETRYABLE}"
| "ALLOWED_TRANSITIONS RETRYABLE = {PENDING, CANCELLED, FAILED}"
| "ALLOWED_TRANSITIONS COMPLETED = {}"
| "ALLOWED_TRANSITIONS FAILED = {}"
| "ALLOWED_TRANSITIONS CANCELLED = {}"

definition requires_scan_hash_mutex :: "JobKind \<Rightarrow> bool" where
  "requires_scan_hash_mutex k = (k \<in> {SCAN, HASH})"

definition enforce_job_policy :: "Settings \<Rightarrow> JobKind \<Rightarrow> bool \<Rightarrow> job_error + unit" where
  "enforce_job_policy cfg k dry =
     (if s_dry_run cfg \<and> \<not> dry then Inl JobPolicyError
      else if k = DELETE \<and> \<not> dry \<and> \<not> s_allow_real_delete cfg then Inl JobPolicyError
      else Inr ())"

definition enforce_transition :: "JobStatus \<Rightarrow> JobStatus \<Rightarrow> job_error + unit" where
  "enforce_transition from_status to_status =
     (if to_status \<notin> ALLOWED_TRANSITIONS from_status then Inl InvalidJobStateError else Inr ())"

subsection \<open>The store\<close>

text \<open>
  The committed contents of the \<open>jobs\<close> table are a list of rows.  Every operation opens
  a session on the committed table, works on the session's copy and returns the table as it
  is committed when the operation ends: the session's copy after \<open>session.commit()\<close>, the
  unchanged table when the operation raises or returns before committing (closing the
  session rolls back what was only flushed).

  The table has the primary key \<open>id\<close> and the partial unique index
  \<open>ix_jobs_single_active_scan_hash\<close> (migrations.py), which admits at most one row with
  status in (pending, running) and kind in (scan, hash).  A statement that would break one of
  them raises \<open>IntegrityError\<close>.
\<close>

type_synonym jobs_table = "Job list"

definition session_get :: "jobs_table \<Rightarrow> string \<Rightarrow> Job option" where
  "session_get db jid = find (\<lambda>j. job_id j = jid) db"

definition index_member :: "Job \<Rightarrow> bool" where
  "index_member j = (status j \<in> {PENDING, RUNNING} \<and> kind j \<in> {SCAN, HASH})"

definition index_conflict :: "jobs_table \<Rightarrow> Job \<Rightarrow> bool" where
  "index_conflict db j =
     (index_member j \<and> (\<exists>r \<in> set db. job_id r \<noteq> job_id j \<and> index_member r))"

definition insert_row :: "jobs_table \<Rightarrow> Job \<Rightarrow> job_error + jobs_table" where
  "insert_row db j =
     (if (\<exists>r \<in> set db. job_id r = job_id j) \<or> index_conflict db j then Inl IntegrityError
      else Inr (db @ [j]))"

text \<open>An \<open>UPDATE\<close> of the row with the primary key of \<open>j\<close>.\<close>

definition upd :: "jobs_table \<Rightarrow> Job \<Rightarrow> jobs_table" where
  "upd db j = map (\<lambda>r. if job_id r = job_id j then j else r) db"

definition update_row :: "jobs_table \<Rightarrow> Job \<Rightarrow> job_error + jobs_table" where
  "update_row db j = (if index_conflict db j then Inl IntegrityError else Inr (upd db j))"

subsection \<open>recover_stale_jobs\<close>

definition is_stale :: "datetime \<Rightarrow> Job \<Rightarrow> bool" where
  "is_stale now j =
     (status j = RUNNING \<and> kind j \<in> {SCAN, HASH} \<and>
      (case lease_expires_at j of None \<Rightarrow> True | Some t \<Rightarrow> t \<le> now))"

definition mark_stale :: "datetime \<Rightarrow> Job \<Rightarrow> Job" where
  "mark_stale now j =
     j\<lparr>status := RETRYABLE,
       error_code := Some ''LEASE_EXPIRED'',
       error_message := Some ''Lease expired and recovered by control plane'',
       finished_at := Some now,
       updated_at := now,
       worker_id := None,
       worker_heartbeat_at := None,
       lease_expires_at := None\<rparr>"

text \<open>
  The loop over \<open>stale_jobs\<close>: each stale row is checked against the transition table and
  rewritten in the session; the other rows are kept.  The result is the session's table and
  the number of rows recovered.
\<close>

fun recover_loop :: "datetime \<Rightarrow> jobs_table \<Rightarrow> job_error + (jobs_table \<times> nat)" where
  "recover_loop now [] = Inr ([], 0)"
| "recover_loop now (j # js) =
     (if is_stale now j then
        (case enforce_transition (status j) RETRYABLE of
           Inl e \<Rightarrow> Inl e
         | Inr _ \<Rightarrow>
            (case recover_loop now js of
               Inl e \<Rightarrow> Inl e
             | Inr (js', n) \<Rightarrow> Inr (mark_stale now j # js', Suc n)))
      else
        (case recover_loop now js of
           Inl e \<Rightarrow> Inl e
         | Inr (js', n) \<Rightarrow> Inr (j # js', n)))"

text \<open>\<open>recover_stale_jobs(session=session)\<close>: the changes are flushed into the caller's session.\<close>

definition recover_stale_jobs_in :: "datetime \<Rightarrow> jobs_table \<Rightarrow> job_error + (jobs_table \<times> nat)" where
  "recover_stale_jobs_in now sess = recover_loop now sess"

text \<open>\<open>recover_stale_jobs()\<close> with a session of its own: the changes are committed.\<close>

definition recover_stale_jobs :: "datetime \<Rightarrow> jobs_table \<Rightarrow> jobs_table \<times> (job_error + nat)" where
  "recover_stale_jobs now db =
     (case recover_loop now db of
        Inl e \<Rightarrow> (db, Inl e)
      | Inr (db', n) \<Rightarrow> (db', Inr n))"

subsection \<open>create_job\<close>

definition is_active_scan_hash :: "Job \<Rightarrow> bool" where
  "is_active_scan_hash j = (kind j \<in> {SCAN, HASH} \<and> status j \<in> {PENDING, RUNNING, RETRYABLE})"

text \<open>
  \<open>new_id\<close> is the value of \<open>str(uuid4())\<close>; \<open>now\<close> is the clock, which also stands for
  the store's \<open>func.now()\<close> that fills \<open>created_at\<close> and \<open>updated_at\<close>.  The other
  columns of the new row take the defaults of the table.
\<close>

definition new_job :: "string \<Rightarrow> JobKind \<Rightarrow> bool \<Rightarrow> (string \<times> string) list option \<Rightarrow> datetime \<Rightarrow> Job" where
  "new_job new_id k effective_dry_run pl now =
     \<lparr>job_id = new_id, kind = k, status = PENDING, dry_run = effective_dry_run,
      worker_id = None, worker_heartbeat_at = None, lease_expires_at = None,
      progress = 0, total_items = None, processed_items = 0,
      payload = (case pl of None \<Rightarrow> [] | Some p \<Rightarrow> p),
      error_code = None, error_message = None,
      created_at = now, updated_at = now, started_at = None, finished_at = None\<rparr>"

definition create_job ::
  "Settings \<Rightarrow> datetime \<Rightarrow> string \<Rightarrow> jobs_table \<Rightarrow> JobKind \<Rightarrow> (string \<times> string) list option \<Rightarrow>
   bool option \<Rightarrow> jobs_table \<times> (job_error + Job)" where
  "create_job cfg now new_id db k pl dry =
     (let effective_dry_run = (case dry of None \<Rightarrow> s_dry_run cfg | Some d \<Rightarrow> d) in
      case enforce_job_policy cfg k effective_dry_run of
        Inl e \<Rightarrow> (db, Inl e)
      | Inr _ \<Rightarrow>
         (case (if requires_scan_hash_mutex k then
                  (case recover_stale_jobs_in now db of
                     Inl e \<Rightarrow> Inl e
                   | Inr (sess, _) \<Rightarrow>
                      if \<exists>j \<in> set sess. is_active_scan_hash j then Inl JobConflictError
                      else Inr sess)
                else Inr db) of
            Inl e \<Rightarrow> (db, Inl e)
          | Inr sess \<Rightarrow>
             (let job = new_job new_id k effective_dry_run pl now in
              case insert_row sess job of
                Inl e \<Rightarrow> (db, Inl (if requires_scan_hash_mutex k then JobConflictError else e))
              | Inr sess' \<Rightarrow> (sess', Inr (to_snapshot job)))))"

subsection \<open>claim_pending_scan_hash_job\<close>

text \<open>
  The candidate of the claim statement: the pending scan/hash row that comes first in
  \<open>ORDER BY created_at ASC, id ASC\<close>.
\<close>

definition older :: "Job \<Rightarrow> Job \<Rightarrow> bool" where
  "older a b = ((created_at a, job_id a) < (created_at b, job_id b))"

fun first_by_created_id :: "Job list \<Rightarrow> Job option" where
  "first_by_created_id [] = None"
| "first_by_created_id (j # js) =
     (case first_by_created_id js of
        None \<Rightarrow> Some j
      | Some m \<Rightarrow> if older m j then Some m else Some j)"

definition claim_candidate :: "jobs_table \<Rightarrow> Job option" where
  "claim_candidate sess =
     first_by_created_id (filter (\<lambda>j. kind j \<in> {SCAN, HASH} \<and> status j = PENDING) sess)"

definition claim_pending_scan_hash_job ::
  "Settings \<Rightarrow> datetime \<Rightarrow> jobs_table \<Rightarrow> string \<Rightarrow> jobs_table \<times> (job_error + Job option)" where
  "claim_pending_scan_hash_job cfg now db wid =
     (let normalized_worker_id = py_strip wid in
      if normalized_worker_id = [] then (db, Inl ValueError)
      else
        case recover_stale_jobs_in now db of
          Inl e \<Rightarrow> (db, Inl e)
        | Inr (sess, _) \<Rightarrow>
           (case claim_candidate sess of
              None \<Rightarrow> (db, Inr None)
            | Some c \<Rightarrow>
               (case update_row sess
                       (c\<lparr>status := RUNNING,
                          started_at := (case started_at c of None \<Rightarrow> Some now | Some t \<Rightarrow> Some t),
                          worker_id := Some normalized_worker_id,
                          worker_heartbeat_at := Some now,
                          lease_expires_at := Some (now + lease_delta cfg),
                          updated_at := now\<rparr>) of
                  Inl e \<Rightarrow> (db, Inl JobConflictError)
                | Inr sess' \<Rightarrow>
                   (case session_get sess' (job_id c) of
                      None \<Rightarrow> (sess', Inl JobConflictError)
                    | Some claimed_job \<Rightarrow> (sess', Inr (Some (to_snapshot claimed_job)))))))"

subsection \<open>heartbeat\<close>

definition expire_lease :: "datetime \<Rightarrow> Job \<Rightarrow> Job" where
  "expire_lease now job =
     job\<lparr>status := RETRYABLE,
         error_code := Some ''LEASE_EXPIRED'',
         error_message := Some ''Lease expired before heartbeat'',
         finished_at := Some now,
         updated_at := now,
         worker_id := None,
         worker_heartbeat_at := None,
         lease_expires_at := None\<rparr>"

definition refresh_lease :: "Settings \<Rightarrow> datetime \<Rightarrow> string \<Rightarrow> Job \<Rightarrow> Job" where
  "refresh_lease cfg now normalized_worker_id job =
     job\<lparr>worker_id := Some normalized_worker_id,
         worker_heartbeat_at := Some now,
         lease_expires_at := Some (now + lease_delta cfg),
         updated_at := now\<rparr>"

definition heartbeat ::
  "Settings \<Rightarrow> datetime \<Rightarrow> jobs_table \<Rightarrow> string \<Rightarrow> string \<Rightarrow> rat option \<Rightarrow> int option \<Rightarrow>
   jobs_table \<times> (job_error + Job)" where
  "heartbeat cfg now db jid wid prog processed =
     (let normalized_worker_id = py_strip wid in
      if normalized_worker_id = [] then (db, Inl ValueError)
      else
        case session_get db jid of
          None \<Rightarrow> (db, Inl JobNotFoundError)
        | Some job \<Rightarrow>
           if status job \<noteq> RUNNING then (db, Inl InvalidJobStateError)
           else if (case coerce_utc (lease_expires_at job) of None \<Rightarrow> True | Some t \<Rightarrow> t \<le> now) then
             (case enforce_transition (status job) RETRYABLE of
                Inl e \<Rightarrow> (db, Inl e)
              | Inr _ \<Rightarrow>
                 (case update_row db (expire_lease now job) of
                    Inl e \<Rightarrow> (db, Inl e)
                  | Inr db' \<Rightarrow> (db', Inl JobConflictError)))
           else if worker_id job \<noteq> None \<and> worker_id job \<noteq> Some normalized_worker_id then
             (db, Inl JobConflictError)
           else
             (case (case prog of
                      None \<Rightarrow> Inr job
                    | Some p \<Rightarrow> if p < 0 \<or> p > 1 then Inl ValueError else Inr (job\<lparr>progress := p\<rparr>)) of
                Inl e \<Rightarrow> (db, Inl e)
              | Inr job1 \<Rightarrow>
                 (case (case processed of
                          None \<Rightarrow> Inr job1
                        | Some n \<Rightarrow> if n < 0 then Inl ValueError else Inr (job1\<lparr>processed_items := n\<rparr>)) of
                    Inl e \<Rightarrow> (db, Inl e)
                  | Inr job2 \<Rightarrow>
                     (let job3 = refresh_lease cfg now normalized_worker_id job2 in
                      case update_row db job3 of
                        Inl e \<Rightarrow> (db, Inl e)
                      | Inr db' \<Rightarrow> (db', Inr (to_snapshot job3))))))"

subsection \<open>finish_job, reset_retryable_job, cancel_job\<close>

definition finish_job ::
  "datetime \<Rightarrow> jobs_table \<Rightarrow> string \<Rightarrow> string \<Rightarrow> bool \<Rightarrow> string option \<Rightarrow>
   jobs_table \<times> (job_error + Job)" where
  "finish_job now db jid wid success msg =
     (let normalized_worker_id = py_strip wid in
      if normalized_worker_id = [] then (db, Inl ValueError)
      else
        case session_get db jid of
          None \<Rightarrow> (db, Inl JobNotFoundError)
        | Some job \<Rightarrow>
           if status job \<noteq> RUNNING then (db, Inl InvalidJobStateError)
           else if worker_id job \<noteq> Some normalized_worker_id then (db, Inl JobConflictError)
           else
             (let next_status = (if success then COMPLETED else FAILED) in
              case enforce_transition (status job) next_status of
                Inl e \<Rightarrow> (db, Inl e)
              | Inr _ \<Rightarrow>
                 (let job' = job\<lparr>status := next_status,
                                 progress := (if success then 1 else progress job),
                                 error_message := msg,
                                 error_code := (if success then None else Some ''WORKER_FAILURE''),
                                 finished_at := Some now,
                                 worker_heartbeat_at := Some now,
                                 lease_expires_at := None,
                                 updated_at := now\<rparr> in
                  case update_row db job' of
                    Inl e \<Rightarrow> (db, Inl e)
                  | Inr db' \<Rightarrow> (db', Inr (to_snapshot job')))))"

definition reset_retryable_job ::
  "datetime \<Rightarrow> jobs_table \<Rightarrow> string \<Rightarrow> jobs_table \<times> (job_error + Job)" where
  "reset_retryable_job now db jid =
     (case session_get db jid of
        None \<Rightarrow> (db, Inl JobNotFoundError)
      | Some job \<Rightarrow>
         (case enforce_transition (status job) PENDING of
            Inl e \<Rightarrow> (db, Inl e)
          | Inr _ \<Rightarrow>
             (let job' = job\<lparr>status := PENDING,
                             worker_id := None,
                             worker_heartbeat_at := None,
                             lease_expires_at := None,
                             error_code := None,
                             error_message := None,
                             finished_at := None,
                             updated_at := now\<rparr> in
              case update_row db job' of
                Inl e \<Rightarrow> (db, Inl e)
              | Inr db' \<Rightarrow> (db', Inr (to_snapshot job')))))"

definition cancelled_row :: "datetime \<Rightarrow> string option \<Rightarrow> Job \<Rightarrow> Job" where
  "cancelled_row now msg job =
     (let job1 = job\<lparr>status := CANCELLED,
                     finished_at := Some now,
                     updated_at := now,
                     lease_expires_at := None\<rparr> in
      case msg of
        None \<Rightarrow> job1
      | Some m \<Rightarrow> if m \<noteq> [] then job1\<lparr>error_message := Some m\<rparr> else job1)"

definition cancel_job ::
  "datetime \<Rightarrow> jobs_table \<Rightarrow> string \<Rightarrow> string option \<Rightarrow> jobs_table \<times> (job_error + Job)" where
  "cancel_job now db jid msg =
     (case session_get db jid of
        None \<Rightarrow> (db, Inl JobNotFoundError)
      | Some job \<Rightarrow>
         (let target = CANCELLED in
          case enforce_transition (status job) target of
            Inl e \<Rightarrow> (db, Inl e)
          | Inr _ \<Rightarrow>
             (let job' = cancelled_row now msg job in
              case update_row db job' of
                Inl e \<Rightarrow> (db, Inl e)
              | Inr db' \<Rightarrow> (db', Inr (to_snapshot job')))))"

subsection \<open>The coordinator operations\<close>

text \<open>
  The operations that write to the \<open>jobs\<close> table, each with its arguments, and the table
  that an operation leaves committed.
\<close>

datatype coordinator_op =
    CreateJob string JobKind "(string \<times> string) list option" "bool option"
  | ClaimPendingScanHashJob string
  | Heartbeat string string "rat option" "int option"
  | FinishJob string string bool "string option"
  | ResetRetryableJob string
  | CancelJob string "string option"
  | RecoverStaleJobs

fun run_op :: "Settings \<Rightarrow> datetime \<Rightarrow> coordinator_op \<Rightarrow> jobs_table \<Rightarrow> jobs_table" where
  "run_op cfg now (CreateJob new_id k pl dry) db = fst (create_job cfg now new_id db k pl dry)"
| "run_op cfg now (ClaimPendingScanHashJob wid) db = fst (claim_pending_scan_hash_job cfg now db wid)"
| "run_op cfg now (Heartbeat jid wid prog processed) db = fst (heartbeat cfg now db jid wid prog processed)"
| "run_op cfg now (FinishJob jid wid success msg) db = fst (finish_job now db jid wid success msg)"
| "run_op cfg now (ResetRetryableJob jid) db = fst (reset_retryable_job now db jid)"
| "run_op cfg now (CancelJob jid msg) db = fst (cancel_job now db jid msg)"
| "run_op cfg now RecoverStaleJobs db = fst (recover_stale_jobs now db)"

subsection \<open>Notions used in the statements about the coordinator\<close>

text \<open>The table in which every stale row has been rewritten by the recovery.\<close>

definition recover_row :: "datetime \<Rightarrow> Job \<Rightarrow> Job" where
  "recover_row now j = (if is_stale now j then mark_stale now j else j)"

definition recovered :: "datetime \<Rightarrow> jobs_table \<Rightarrow> jobs_table" where
  "recovered now db = map (recover_row now) db"

text \<open>A row that can be added to a session: a new key, pending, and admitted by the mutex.\<close>

definition fresh_row_ok :: "jobs_table \<Rightarrow> Job \<Rightarrow> bool" where
  "fresh_row_ok sess j =
     (job_id j \<notin> job_id ` set sess \<and> status j = PENDING \<and> worker_id j = None \<and>
      lease_expires_at j = None \<and>
      (kind j \<in> {SCAN, HASH} \<longrightarrow> (\<forall>r \<in> set sess. \<not> is_active_scan_hash r)))"

text \<open>
  The admission mutex on a table with a primary key: the active scan/hash rows all carry the
  same key, and keys are not repeated.
\<close>

definition mutex_inv :: "jobs_table \<Rightarrow> bool" where
  "mutex_inv db =
     (distinct (map job_id db) \<and>
      (\<forall>a \<in> set db. \<forall>b \<in> set db.
          is_active_scan_hash a \<and> is_active_scan_hash b \<longrightarrow> job_id a = job_id b))"

text \<open>
  The lease fields of a row, as the operations keep them: a running row has a worker and a
  lease, a row that is not running has no lease, and a pending or retryable row has no worker.
\<close>

definition lease_inv :: "Job \<Rightarrow> bool" where
  "lease_inv j =
     ((status j = RUNNING \<longrightarrow> worker_id j \<noteq> None \<and> lease_expires_at j \<noteq> None) \<and>
      (status j \<noteq> RUNNING \<longrightarrow> lease_expires_at j = None) \<and>
      (status j \<in> {PENDING, RETRYABLE} \<longrightarrow> worker_id j = None))"

text \<open>
  The lease fields of a row that an operation on the table \<open>db\<close> has written: a running row
  has a worker and a lease, a pending or retryable row has neither, and a completed, failed or
  cancelled row has no lease and the worker of the row of \<open>db\<close> with its key.
\<close>

definition lease_fields_after :: "jobs_table \<Rightarrow> Job \<Rightarrow> bool" where
  "lease_fields_after db j' =
     ((status j' = RUNNING \<longrightarrow> worker_id j' \<noteq> None \<and> lease_expires_at j' \<noteq> None) \<and>
      (status j' \<in> {PENDING, RETRYABLE} \<longrightarrow> worker_id j' = None \<and> lease_expires_at j' = None) \<and>
      (status j' \<in> {COMPLETED, FAILED, CANCELLED} \<longrightarrow>
         lease_expires_at j' = None \<and>
         (\<exists>j. session_get db (job_id j') = Some j \<and> worker_id j' = worker_id j)))"

text \<open>The partial unique index as a property of a table.\<close>

definition index_ok :: "jobs_table \<Rightarrow> bool" where
  "index_ok db =
     (\<forall>a \<in> set db. \<forall>b \<in> set db. index_member a \<and> index_member b \<longrightarrow> job_id a = job_id b)"

section \<open>WAL maintenance scheduler (dedupfs/maintenance/service.py)\<close>

text \<open>
  \<open>str.lower()\<close> on code points below 256: the letters A to Z and the Latin-1 capitals
  (192 to 222 except the multiplication sign 215) move up by 32.
\<close>

definition py_lower_char :: "char \<Rightarrow> char" where
  "py_lower_char c =
     (let n = (of_char c :: nat) in
      if (65 \<le> n \<and> n \<le> 90) \<or> (192 \<le> n \<and> n \<le> 222 \<and> n \<noteq> 215) then char_of (n + 32) else c)"

definition py_lower :: "string \<Rightarrow> string" where
  "py_lower s = map py_lower_char s"

datatype WalCheckpointMode = PASSIVE | RESTART | TRUNCATE

datatype WalMaintenanceStatus = W_PENDING | W_RUNNING | W_COMPLETED | W_FAILED | W_RETRYABLE

text \<open>The \<open>wal_maintenance_jobs\<close> row (class \<open>WalMaintenanceJob\<close>).\<close>

record WalMaintenanceJob =
  w_id :: int
  w_requested_mode :: WalCheckpointMode
  w_status :: WalMaintenanceStatus
  w_requested_by :: "string option"
  w_reason :: "string option"
  w_execute_after :: datetime
  w_retry_count :: int
  w_retry_after :: "datetime option"
  w_worker_id :: "string option"
  w_worker_heartbeat_at :: "datetime option"
  w_lease_expires_at :: "datetime option"
  w_checkpoint_busy :: "int option"
  w_checkpoint_log_frames :: "int option"
  w_checkpointed_frames :: "int option"
  w_error_code :: "string option"
  w_error_message :: "string option"
  w_created_at :: datetime
  w_updated_at :: datetime
  w_started_at :: "datetime option"
  w_finished_at :: "datetime option"

text \<open>The dataclass \<open>WalMaintenanceSnapshot\<close> (maintenance/types.py).\<close>

record WalMaintenanceSnapshot =
  ws_id :: int
  ws_requested_mode :: WalCheckpointMode
  ws_status :: WalMaintenanceStatus
  ws_requested_by :: "string option"
  ws_reason :: "string option"
  ws_execute_after :: datetime
  ws_retry_count :: int
  ws_retry_after :: "datetime option"
  ws_worker_id :: "string option"
  ws_worker_heartbeat_at :: "datetime option"
  ws_lease_expires_at :: "datetime option"
  ws_checkpoint_busy :: "int option"
  ws_checkpoint_log_frames :: "int option"
  ws_checkpointed_frames :: "int option"
  ws_error_code :: "string option"
  ws_error_message :: "string option"
  ws_created_at :: datetime
  ws_updated_at :: datetime
  ws_started_at :: "datetime option"
  ws_finished_at :: "datetime option"

record WalSettings =
  wal_checkpoint_default_mode :: string
  wal_checkpoint_min_interval_seconds :: int
  wal_checkpoint_allow_truncate :: bool

text \<open>
  \<open>WalMaintenanceConflictError\<close> carries the number of seconds named in its message.
\<close>

datatype wal_error =
    WalMaintenancePolicyError
  | WalMaintenanceConflictError int
  | WalMaintenanceNotFoundError
  | WalValueError

text \<open>The enum constructor \<open>WalCheckpointMode(token)\<close>, which raises on an unknown value.\<close>

definition WalCheckpointMode_of :: "string \<Rightarrow> wal_error + WalCheckpointMode" where
  "WalCheckpointMode_of token =
     (if token = ''passive'' then Inr PASSIVE
      else if token = ''restart'' then Inr RESTART
      else if token = ''truncate'' then Inr TRUNCATE
      else Inl WalValueError)"

definition normalize_mode :: "WalSettings \<Rightarrow> string option \<Rightarrow> wal_error + WalCheckpointMode" where
  "normalize_mode cfg raw_mode =
     (case raw_mode of
        None \<Rightarrow> WalCheckpointMode_of (wal_checkpoint_default_mode cfg)
      | Some raw \<Rightarrow> WalCheckpointMode_of (py_lower (py_strip raw)))"

definition wal_to_snapshot :: "WalMaintenanceJob \<Rightarrow> WalMaintenanceSnapshot" where
  "wal_to_snapshot row =
     \<lparr>ws_id = w_id row,
      ws_requested_mode = w_requested_mode row,
      ws_status = w_status row,
      ws_requested_by = w_requested_by row,
      ws_reason = w_reason row,
      ws_execute_after = w_execute_after row,
      ws_retry_count = w_retry_count row,
      ws_retry_after = w_retry_after row,
      ws_worker_id = w_worker_id row,
      ws_worker_heartbeat_at = w_worker_heartbeat_at row,
      ws_lease_expires_at = w_lease_expires_at row,
      ws_checkpoint_busy = w_checkpoint_busy row,
      ws_checkpoint_log_frames = w_checkpoint_log_frames row,
      ws_checkpointed_frames = w_checkpointed_frames row,
      ws_error_code = w_error_code row,
      ws_error_message = w_error_message row,
      ws_created_at = w_created_at row,
      ws_updated_at = w_updated_at row,
      ws_started_at = w_started_at row,
      ws_finished_at = w_finished_at row\<rparr>"

text \<open>
  \<open>ORDER BY key DESC LIMIT 1\<close>: the row with the greatest key, if there is a row.  In the
  store a null sorts below every value, as \<open>None\<close> does in the order on options.
\<close>

fun first_desc :: "('a \<Rightarrow> 'k::linorder) \<Rightarrow> 'a list \<Rightarrow> 'a option" where
  "first_desc key [] = None"
| "first_desc key (x # xs) =
     (case first_desc key xs of
        None \<Rightarrow> Some x
      | Some m \<Rightarrow> if key m < key x then Some x else Some m)"

definition wal_is_active :: "WalMaintenanceJob \<Rightarrow> bool" where
  "wal_is_active r = (w_status r \<in> {W_PENDING, W_RUNNING, W_RETRYABLE})"

text \<open>The identifier the store gives to a new row of an \<open>INTEGER PRIMARY KEY\<close> table.\<close>

definition next_rowid :: "int list \<Rightarrow> int" where
  "next_rowid ids = (if ids = [] then 1 else Max (set ids) + 1)"

definition normalize_requested_by :: "string option \<Rightarrow> string" where
  "normalize_requested_by requested_by =
     (let base = (case requested_by of None \<Rightarrow> ''api'' | Some s \<Rightarrow> if s = [] then ''api'' else s);
          cut = take 64 (py_strip base)
      in if cut = [] then ''api'' else cut)"

definition request_checkpoint ::
  "WalSettings \<Rightarrow> datetime \<Rightarrow> WalMaintenanceJob list \<Rightarrow> string option \<Rightarrow> string option \<Rightarrow>
   string option \<Rightarrow> bool \<Rightarrow> WalMaintenanceJob list \<times> (wal_error + WalMaintenanceSnapshot)" where
  "request_checkpoint cfg now db mode reason requested_by force =
     (case normalize_mode cfg mode of
        Inl e \<Rightarrow> (db, Inl e)
      | Inr normalized_mode \<Rightarrow>
         if normalized_mode = TRUNCATE \<and> \<not> wal_checkpoint_allow_truncate cfg
         then (db, Inl WalMaintenancePolicyError)
         else
           (case first_desc (\<lambda>r. (w_created_at r, w_id r)) (filter wal_is_active db) of
              Some active \<Rightarrow> (db, Inr (wal_to_snapshot active))
            | None \<Rightarrow>
               (case (if \<not> force then
                        (case first_desc (\<lambda>r. (w_finished_at r, w_id r))
                                (filter (\<lambda>r. w_status r = W_COMPLETED) db) of
                           None \<Rightarrow> Inr ()
                         | Some latest_completed \<Rightarrow>
                            (case coerce_utc (w_finished_at latest_completed) of
                               None \<Rightarrow> Inr ()
                             | Some latest_finished_at \<Rightarrow>
                                (let next_allowed = latest_finished_at +
                                       timedelta_seconds (wal_checkpoint_min_interval_seconds cfg)
                                 in if now < next_allowed
                                    then Inl (WalMaintenanceConflictError ((next_allowed - now) div 1000000))
                                    else Inr ())))
                      else Inr ()) of
                  Inl e \<Rightarrow> (db, Inl e)
                | Inr _ \<Rightarrow>
                   (let row = \<lparr>w_id = next_rowid (map w_id db),
                               w_requested_mode = normalized_mode,
                               w_status = W_PENDING,
                               w_requested_by = Some (normalize_requested_by requested_by),
                               w_reason = reason,
                               w_execute_after = now,
                               w_retry_count = 0,
                               w_retry_after = Some now,
                               w_worker_id = None,
                               w_worker_heartbeat_at = None,
                               w_lease_expires_at = None,
                               w_checkpoint_busy = None,
                               w_checkpoint_log_frames = None,
                               w_checkpointed_frames = None,
                               w_error_code = None,
                               w_error_message = None,
                               w_created_at = now,
                               w_updated_at = now,
                               w_started_at = None,
                               w_finished_at = None\<rparr>
                    in (db @ [row], Inr (wal_to_snapshot row))))))"

section \<open>Schema migrations (dedupfs/db/migrations.py)\<close>

text \<open>
  The migrations are modelled on what they do to the \<open>jobs\<close> table and to
  \<open>schema_migrations\<close>.  A row of \<open>jobs\<close> is the raw row of the store: \<open>kind\<close> and
  \<open>status\<close> are text, in whatever case a historical store holds.  The columns that no
  migration statement changes (\<open>dry_run\<close>, \<open>progress\<close>, \<open>total_items\<close>,
  \<open>processed_items\<close>, \<open>payload\<close>, \<open>started_at\<close>) are left out; the table is taken to
  have them, as the baseline schema does.  \<open>created_at\<close> is the instant that the stored
  text denotes, so the order of the column is the order of the instants.

  The state records whether the table exists, whether it still has the legacy column
  \<open>execution_backend\<close>, whether it has the columns \<open>lease_expires_at\<close> and
  \<open>error_code\<close> (a missing column reads as null in the rows), whether the unique index
  \<open>ix_jobs_single_active_scan_hash\<close> with the current predicate exists, and the applied
  versions.  The steps 1 and 4 do nothing.  The steps 2, 3, 8 and 10 to 12 act on other tables
  only and leave this state as it is; whether the store accepts their statements (they raise
  on a missing table or column, and step 11 raises \<open>RuntimeError\<close> on a \<open>library_files\<close>
  table without \<open>id\<close>) is a parameter \<open>accept\<close> of the model, by version.
\<close>

text \<open>SQLite's \<open>lower()\<close> folds the ASCII letters only; \<open>trim()\<close> removes spaces.\<close>

definition sql_lower_char :: "char \<Rightarrow> char" where
  "sql_lower_char c =
     (let n = (of_char c :: nat) in if 65 \<le> n \<and> n \<le> 90 then char_of (n + 32) else c)"

definition sql_lower :: "string \<Rightarrow> string" where
  "sql_lower s = map sql_lower_char s"

definition sql_trim :: "string \<Rightarrow> string" where
  "sql_trim s = rev (dropWhile (\<lambda>c. c = CHR '' '') (rev (dropWhile (\<lambda>c. c = CHR '' '') s)))"

record job_row =
  r_id :: string
  r_kind :: string
  r_status :: string
  r_worker_id :: "string option"
  r_worker_heartbeat_at :: "datetime option"
  r_lease_expires_at :: "datetime option"
  r_error_code :: "string option"
  r_error_message :: "string option"
  r_created_at :: datetime
  r_updated_at :: datetime
  r_finished_at :: "datetime option"

record mig_db =
  jobs_exists :: bool
  jobs_rows :: "job_row list"
  has_execution_backend :: bool
  has_lease_expires_at :: bool
  has_error_code :: bool
  single_active_index :: bool
  sqlite_dialect :: bool
  applied_versions :: "nat list"

datatype mig_error = OperationalError | IndexIntegrityError

definition normalize_job_enum_values :: "job_row list \<Rightarrow> job_row list" where
  "normalize_job_enum_values rows =
     map (\<lambda>r. if r_kind r \<noteq> sql_lower (r_kind r) \<or> r_status r \<noteq> sql_lower (r_status r)
              then r\<lparr>r_kind := sql_lower (r_kind r), r_status := sql_lower (r_status r)\<rparr>
              else r) rows"

definition is_running_scan_hash :: "job_row \<Rightarrow> bool" where
  "is_running_scan_hash r =
     (sql_lower (r_status r) = ''running'' \<and> sql_lower (r_kind r) \<in> {''scan'', ''hash''})"

definition is_pending_or_running_scan_hash :: "job_row \<Rightarrow> bool" where
  "is_pending_or_running_scan_hash r =
     (sql_lower (r_kind r) \<in> {''scan'', ''hash''} \<and>
      sql_lower (r_status r) \<in> {''pending'', ''running''})"

text \<open>
  \<open>ROW_NUMBER() OVER (ORDER BY ...)\<close> numbers the selected rows in the order of the key;
  the rows with \<open>row_num > 1\<close> are all but the first.
\<close>

definition rows_after_first :: "(job_row \<Rightarrow> 'k::linorder) \<Rightarrow> job_row list \<Rightarrow> job_row list" where
  "rows_after_first key selected = drop 1 (sort_key key selected)"

definition coalesce_message :: "string option \<Rightarrow> string \<Rightarrow> string option" where
  "coalesce_message m dflt =
     (case m of None \<Rightarrow> Some dflt | Some t \<Rightarrow> if sql_trim t = [] then Some dflt else Some t)"

definition coalesce_time :: "datetime option \<Rightarrow> datetime \<Rightarrow> datetime option" where
  "coalesce_time t now = (case t of None \<Rightarrow> Some now | Some v \<Rightarrow> Some v)"

definition mutex_recovery_row :: "datetime \<Rightarrow> job_row \<Rightarrow> job_row" where
  "mutex_recovery_row now r =
     r\<lparr>r_status := ''retryable'',
       r_worker_id := None,
       r_worker_heartbeat_at := None,
       r_lease_expires_at := None,
       r_error_code := Some ''MIGRATION_MUTEX_RECOVERY'',
       r_error_message := coalesce_message (r_error_message r)
         ''Reclassified during migration to satisfy single running scan/hash invariant'',
       r_finished_at := coalesce_time (r_finished_at r) now,
       r_updated_at := now\<rparr>"

text \<open>\<open>UPDATE jobs SET ... WHERE id IN (ids)\<close>.\<close>

definition update_where_id_in :: "string list \<Rightarrow> (job_row \<Rightarrow> job_row) \<Rightarrow> job_row list \<Rightarrow> job_row list" where
  "update_where_id_in ids set_columns rows =
     map (\<lambda>r. if r_id r \<in> set ids then set_columns r else r) rows"

definition resolve_duplicate_running_scan_hash_jobs :: "datetime \<Rightarrow> job_row list \<Rightarrow> job_row list" where
  "resolve_duplicate_running_scan_hash_jobs now rows =
     (let ranked_ids = map r_id (rows_after_first (\<lambda>r. (r_created_at r, r_id r))
                                   (filter is_running_scan_hash rows))
      in update_where_id_in ranked_ids (mutex_recovery_row now) rows)"

definition status_rank :: "job_row \<Rightarrow> nat" where
  "status_rank r =
     (if sql_lower (r_status r) = ''running'' then 0
      else if sql_lower (r_status r) = ''pending'' then 1 else 2)"

definition active_recovery_row :: "datetime \<Rightarrow> job_row \<Rightarrow> job_row" where
  "active_recovery_row now r =
     r\<lparr>r_status := ''retryable'',
       r_worker_id := None,
       r_worker_heartbeat_at := None,
       r_lease_expires_at := None,
       r_error_code := coalesce_message (r_error_code r) ''MIGRATION_ACTIVE_RECOVERY'',
       r_error_message := coalesce_message (r_error_message r)
         ''Reclassified during migration to satisfy single pending/running scan/hash invariant'',
       r_finished_at := coalesce_time (r_finished_at r) now,
       r_updated_at := now\<rparr>"

definition resolve_duplicate_pending_or_running_scan_hash_jobs ::
  "datetime \<Rightarrow> job_row list \<Rightarrow> job_row list" where
  "resolve_duplicate_pending_or_running_scan_hash_jobs now rows =
     (let ranked_ids = map r_id (rows_after_first (\<lambda>r. (status_rank r, r_created_at r, r_id r))
                                   (filter is_pending_or_running_scan_hash rows))
      in update_where_id_in ranked_ids (active_recovery_row now) rows)"

text \<open>
  The three statements of a repair.  The two \<open>UPDATE\<close>s name the columns
  \<open>lease_expires_at\<close> and \<open>error_code\<close>; on a table without them the store
  rejects the statement.
\<close>

definition repair_rows :: "datetime \<Rightarrow> job_row list \<Rightarrow> job_row list" where
  "repair_rows now rows =
     resolve_duplicate_pending_or_running_scan_hash_jobs now
       (resolve_duplicate_running_scan_hash_jobs now (normalize_job_enum_values rows))"

text \<open>
  The common part of the steps 6, 7 and 9: drop the unique index, normalise, repair, and build
  the unique index again, which the store refuses when two rows fall under its predicate.
\<close>

definition repair_statements :: "datetime \<Rightarrow> mig_db \<Rightarrow> mig_error + mig_db" where
  "repair_statements now db =
     (if \<not> (has_lease_expires_at db \<and> has_error_code db) then Inl OperationalError
      else
        (let rows = repair_rows now (jobs_rows db)
         in if 1 < length (filter is_pending_or_running_scan_hash rows)
            then Inl IndexIntegrityError
            else Inr (db\<lparr>jobs_rows := rows, single_active_index := True\<rparr>)))"

definition migration_0005_remove_job_execution_backend :: "mig_db \<Rightarrow> mig_error + mig_db" where
  "migration_0005_remove_job_execution_backend db =
     (if \<not> jobs_exists db then Inr db
      else if \<not> has_execution_backend db then Inr db
      else if sqlite_dialect db then
        Inr (db\<lparr>jobs_rows := map (\<lambda>r. r\<lparr>r_lease_expires_at := None, r_error_code := None\<rparr>)
                                 (jobs_rows db),
                has_execution_backend := False,
                has_lease_expires_at := False,
                has_error_code := False,
                single_active_index := False\<rparr>)
      else Inr (db\<lparr>has_execution_backend := False\<rparr>))"

definition migration_0006_jobs_lease_protocol :: "datetime \<Rightarrow> mig_db \<Rightarrow> mig_error + mig_db" where
  "migration_0006_jobs_lease_protocol now db =
     (if \<not> jobs_exists db then Inr db
      else repair_statements now (db\<lparr>has_lease_expires_at := True, has_error_code := True\<rparr>))"

definition migration_0007_normalize_enum_storage_for_rust_protocol ::
  "datetime \<Rightarrow> mig_db \<Rightarrow> mig_error + mig_db" where
  "migration_0007_normalize_enum_storage_for_rust_protocol now db =
     (if \<not> jobs_exists db then Inr db else repair_statements now db)"

definition migration_0009_scan_hash_admission_mutex :: "datetime \<Rightarrow> mig_db \<Rightarrow> mig_error + mig_db" where
  "migration_0009_scan_hash_admission_mutex now db =
     (if \<not> jobs_exists db then Inr db else repair_statements now db)"

text \<open>A step that acts on other tables only.\<close>

definition other_tables_step :: "(nat \<Rightarrow> bool) \<Rightarrow> nat \<Rightarrow> mig_db \<Rightarrow> mig_error + mig_db" where
  "other_tables_step accept version db = (if accept version then Inr db else Inl OperationalError)"

text \<open>\<open>MIGRATIONS\<close>: the steps in the order of the tuple, each with its version.\<close>

definition MIGRATIONS ::
  "datetime \<Rightarrow> (nat \<Rightarrow> bool) \<Rightarrow> (nat \<times> (mig_db \<Rightarrow> mig_error + mig_db)) list" where
  "MIGRATIONS now accept =
     [(1, Inr),
      (2, other_tables_step accept 2),
      (3, other_tables_step accept 3),
      (4, Inr),
      (5, migration_0005_remove_job_execution_backend),
      (6, migration_0006_jobs_lease_protocol now),
      (7, migration_0007_normalize_enum_storage_for_rust_protocol now),
      (8, other_tables_step accept 8),
      (9, migration_0009_scan_hash_admission_mutex now),
      (10, other_tables_step accept 10),
      (11, other_tables_step accept 11),
      (12, other_tables_step accept 12)]"

text \<open>
  The loop of \<open>apply_migrations\<close>.  The applied versions are read once, before the loop;
  a step that raises aborts the transaction.
\<close>

fun run_steps ::
  "nat list \<Rightarrow> (nat \<times> (mig_db \<Rightarrow> mig_error + mig_db)) list \<Rightarrow> mig_db \<Rightarrow> mig_error + mig_db" where
  "run_steps existing_versions [] db = Inr db"
| "run_steps existing_versions ((version, apply) # steps) db =
     (if version \<in> set existing_versions then run_steps existing_versions steps db
      else
        (case apply db of
           Inl e \<Rightarrow> Inl e
         | Inr db' \<Rightarrow>
            run_steps existing_versions steps
              (db'\<lparr>applied_versions := applied_versions db' @ [version]\<rparr>)))"

definition apply_migrations :: "datetime \<Rightarrow> (nat \<Rightarrow> bool) \<Rightarrow> mig_db \<Rightarrow> mig_error + mig_db" where
  "apply_migrations now accept db = run_steps (applied_versions db) (MIGRATIONS now accept) db"

subsection \<open>Notions used in the statements about the migrations\<close>

text \<open>
  The row that \<open>ROW_NUMBER\<close> puts first among the selected rows of a table: a selected row
  whose key is least.
\<close>

definition is_first :: "(job_row \<Rightarrow> bool) \<Rightarrow> (job_row \<Rightarrow> 'k::linorder) \<Rightarrow> job_row list \<Rightarrow> job_row \<Rightarrow> bool" where
  "is_first sel key rows r = (sel r \<and> (\<forall>x \<in> set rows. sel x \<longrightarrow> key r \<le> key x))"

definition created_id :: "job_row \<Rightarrow> datetime \<times> string" where
  "created_id r = (r_created_at r, r_id r)"

definition oldest_running :: "job_row list \<Rightarrow> job_row \<Rightarrow> bool" where
  "oldest_running rows r = is_first is_running_scan_hash created_id rows r"

definition rank_created_id :: "job_row \<Rightarrow> nat \<times> datetime \<times> string" where
  "rank_created_id r = (status_rank r, r_created_at r, r_id r)"

text \<open>A row that agrees with \<open>r0\<close> on what the repairs read, up to the case of the enums.\<close>

definition same_job :: "job_row \<Rightarrow> job_row \<Rightarrow> bool" where
  "same_job r0 r =
     (r_id r = r_id r0 \<and> r_created_at r = r_created_at r0 \<and>
      sql_lower (r_status r) = sql_lower (r_status r0) \<and>
      sql_lower (r_kind r) = sql_lower (r_kind r0))"

definition lowercase_row :: "job_row \<Rightarrow> bool" where
  "lowercase_row r = (r_kind r = sql_lower (r_kind r) \<and> r_status r = sql_lower (r_status r))"

text \<open>The normalisation of one row.\<close>

definition nz :: "job_row \<Rightarrow> job_row" where
  "nz r = (if r_kind r \<noteq> sql_lower (r_kind r) \<or> r_status r \<noteq> sql_lower (r_status r)
           then r\<lparr>r_kind := sql_lower (r_kind r), r_status := sql_lower (r_status r)\<rparr>
           else r)"

definition mutex_recovered :: "job_row \<Rightarrow> bool" where
  "mutex_recovered r =
     (r_status r = ''retryable'' \<and> r_error_code r = Some ''MIGRATION_MUTEX_RECOVERY'' \<and>
      r_worker_id r = None \<and> r_worker_heartbeat_at r = None \<and> r_lease_expires_at r = None)"

text \<open>What the migrations leave of a row \<open>r0\<close> of the table \<open>rows0\<close> they started from.\<close>

definition repaired_row :: "job_row list \<Rightarrow> job_row \<Rightarrow> job_row \<Rightarrow> bool" where
  "repaired_row rows0 r0 r =
     (r_id r = r_id r0 \<and> r_created_at r = r_created_at r0 \<and>
      (if oldest_running rows0 r0 then r_status r = ''running'' \<and> is_running_scan_hash r
       else \<not> is_pending_or_running_scan_hash r \<and>
            (is_running_scan_hash r0 \<longrightarrow> mutex_recovered r)))"

text \<open>The tables before and after the first repair, relative to the table at the start.\<close>

definition repaired_table :: "job_row list \<Rightarrow> job_row list \<Rightarrow> bool" where
  "repaired_table rows0 rows =
     list_all2 (\<lambda>r0 r. repaired_row rows0 r0 r \<and> lowercase_row r) rows0 rows"

definition pre_repair :: "job_row list \<Rightarrow> mig_db \<Rightarrow> bool" where
  "pre_repair rows0 db = (jobs_exists db \<and> list_all2 same_job rows0 (jobs_rows db))"

definition post_repair :: "job_row list \<Rightarrow> mig_db \<Rightarrow> bool" where
  "post_repair rows0 db =
     (jobs_exists db \<and> has_lease_expires_at db \<and> has_error_code db \<and>
      repaired_table rows0 (jobs_rows db))"

text \<open>What holds of the state when the loop reaches the step with version \<open>v\<close>.\<close>

definition at_step :: "job_row list \<Rightarrow> nat list \<Rightarrow> nat \<Rightarrow> mig_db \<Rightarrow> bool" where
  "at_step rows0 existing v db =
     ((7 \<le> v \<and> post_repair rows0 db) \<or>
      (v \<le> 9 \<and> pre_repair rows0 db \<and>
       ((v \<le> 6 \<and> 6 \<notin> set existing) \<or> (has_lease_expires_at db \<and> has_error_code db))))"

section \<open>Thumbnail queue (dedupfs/thumbs/service.py)\<close>

subsection \<open>Rows, settings, errors\<close>

datatype HashAlgorithm = BLAKE3 | SHA256

fun HashAlgorithm_value :: "HashAlgorithm \<Rightarrow> string" where
  "HashAlgorithm_value BLAKE3 = ''blake3''"
| "HashAlgorithm_value SHA256 = ''sha256''"

datatype ThumbnailStatus = T_PENDING | T_RUNNING | T_READY | T_FAILED

datatype ThumbnailMediaType = IMAGE | VIDEO

datatype ThumbnailFormat = JPEG | WEBP

fun ThumbnailFormat_value :: "ThumbnailFormat \<Rightarrow> string" where
  "ThumbnailFormat_value JPEG = ''jpeg''"
| "ThumbnailFormat_value WEBP = ''webp''"

text \<open>
  The columns of \<open>library_files\<close> and \<open>library_roots\<close> that the thumbnail service reads.
  A \<open>bytes\<close> value is a list of numbers below 256.
\<close>

record LibraryFile =
  lf_id :: int
  lf_library_id :: int
  lf_relative_path :: string
  lf_size_bytes :: int
  lf_mtime_ns :: int
  lf_is_missing :: bool
  lf_hash_algorithm :: "HashAlgorithm option"
  lf_content_hash :: "nat list option"

record LibraryRoot =
  lr_id :: int
  lr_root_path :: string

text \<open>The \<open>thumbnails\<close> row (class \<open>Thumbnail\<close>).\<close>

record Thumbnail =
  t_id :: int
  t_thumb_key :: string
  t_file_id :: int
  t_group_key :: "string option"
  t_status :: ThumbnailStatus
  t_media_type :: ThumbnailMediaType
  t_format :: ThumbnailFormat
  t_max_dimension :: int
  t_version :: int
  t_source_size_bytes :: int
  t_source_mtime_ns :: int
  t_output_relpath :: "string option"
  t_width :: "int option"
  t_height :: "int option"
  t_bytes_size :: "int option"
  t_error_code :: "string option"
  t_error_message :: "string option"
  t_error_count :: int
  t_retry_after :: "datetime option"
  t_worker_id :: "string option"
  t_worker_heartbeat_at :: "datetime option"
  t_lease_expires_at :: "datetime option"
  t_created_at :: datetime
  t_updated_at :: datetime
  t_started_at :: "datetime option"
  t_finished_at :: "datetime option"

text \<open>The dataclass \<open>ThumbnailSnapshot\<close> (thumbs/types.py).\<close>

record ThumbnailSnapshot =
  ts_id :: int
  ts_thumb_key :: string
  ts_file_id :: int
  ts_group_key :: "string option"
  ts_status :: ThumbnailStatus
  ts_media_type :: ThumbnailMediaType
  ts_format :: ThumbnailFormat
  ts_max_dimension :: int
  ts_version :: int
  ts_source_size_bytes :: int
  ts_source_mtime_ns :: int
  ts_output_relpath :: "string option"
  ts_width :: "int option"
  ts_height :: "int option"
  ts_bytes_size :: "int option"
  ts_error_code :: "string option"
  ts_error_message :: "string option"
  ts_error_count :: int
  ts_retry_after :: "datetime option"
  ts_worker_id :: "string option"
  ts_worker_heartbeat_at :: "datetime option"
  ts_lease_expires_at :: "datetime option"
  ts_created_at :: datetime
  ts_updated_at :: datetime
  ts_started_at :: "datetime option"
  ts_finished_at :: "datetime option"

record ThumbSettings =
  libraries_root :: string
  thumbnail_max_dimension :: int
  thumbnail_default_format :: string
  thumbnail_queue_capacity :: int

text \<open>
  The exceptions that leave the thumbnail service.  \<open>T_ValueError\<close> is the \<open>ValueError\<close>
  of an enum constructor, \<open>T_IntegrityError\<close> the store's \<open>IntegrityError\<close>.
\<close>

datatype thumb_error =
    ThumbnailNotFoundError
  | ThumbnailPolicyError
  | ThumbnailQueueFullError
  | ThumbnailCleanupError
  | PathSafetyError
  | T_ValueError
  | T_IntegrityError

text \<open>
  What the service takes from the platform: \<open>hashlib.sha256(m).hexdigest()\<close> of the UTF-8
  encoding of a string, and of \<open>pathlib\<close> the parts of \<open>Path(p).resolve(strict=False)\<close>, the
  parts of \<open>(root / rel).resolve(strict=False)\<close> for a resolved \<open>root\<close>, \<open>Path(p).parts\<close>
  and \<open>Path(p).suffix\<close>.  They are parameters of the model; a path that has been resolved
  is the list of its parts.
\<close>

record platform =
  os_sha256_hexdigest :: "string \<Rightarrow> string"
  os_resolve :: "string \<Rightarrow> string list"
  os_resolve_under :: "string list \<Rightarrow> string \<Rightarrow> string list"
  os_parts :: "string \<Rightarrow> string list"
  os_suffix :: "string \<Rightarrow> string"

subsection \<open>Formatting\<close>

text \<open>\<open>str(n)\<close> of an \<open>int\<close>, and \<open>bytes.hex()\<close>.\<close>

fun nat_decimal :: "nat \<Rightarrow> string" where
  "nat_decimal n =
     (if n < 10 then [''0123456789'' ! n]
      else nat_decimal (n div 10) @ [''0123456789'' ! (n mod 10)])"

declare nat_decimal.simps [simp del]

definition py_str_int :: "int \<Rightarrow> string" where
  "py_str_int i = (if i < 0 then CHR ''-'' # nat_decimal (nat (- i)) else nat_decimal (nat i))"

definition hex_digit :: "nat \<Rightarrow> char" where
  "hex_digit n = ''0123456789abcdef'' ! n"

definition bytes_hex :: "nat list \<Rightarrow> string" where
  "bytes_hex bs = concat (map (\<lambda>b. [hex_digit (b div 16 mod 16), hex_digit (b mod 16)]) bs)"

subsection \<open>The helpers of the service\<close>

definition ThumbnailFormat_of :: "string \<Rightarrow> ThumbnailFormat option" where
  "ThumbnailFormat_of token =
     (if token = ''jpeg'' then Some JPEG else if token = ''webp'' then Some WEBP else None)"

definition normalize_format :: "ThumbSettings \<Rightarrow> string option \<Rightarrow> thumb_error + ThumbnailFormat" where
  "normalize_format cfg raw_format =
     (case raw_format of
        None \<Rightarrow>
          (case ThumbnailFormat_of (thumbnail_default_format cfg) of
             None \<Rightarrow> Inl T_ValueError
           | Some f \<Rightarrow> Inr f)
      | Some raw \<Rightarrow>
          (case ThumbnailFormat_of (py_lower (py_strip raw)) of
             None \<Rightarrow> Inl ThumbnailPolicyError
           | Some f \<Rightarrow> Inr f))"

definition normalize_dimension :: "ThumbSettings \<Rightarrow> int option \<Rightarrow> thumb_error + int" where
  "normalize_dimension cfg requested =
     (case requested of
        None \<Rightarrow> Inr (thumbnail_max_dimension cfg)
      | Some r \<Rightarrow>
          if r \<le> 0 then Inl ThumbnailPolicyError
          else if r > thumbnail_max_dimension cfg then Inl ThumbnailPolicyError
          else Inr r)"

definition IMAGE_EXTENSIONS :: "string set" where
  "IMAGE_EXTENSIONS =
     {''.jpg'', ''.jpeg'', ''.png'', ''.bmp'', ''.gif'', ''.tif'', ''.tiff'', ''.webp''}"

definition VIDEO_EXTENSIONS :: "string set" where
  "VIDEO_EXTENSIONS =
     {''.mp4'', ''.mov'', ''.m4v'', ''.avi'', ''.mkv'', ''.webm'', ''.mpeg'', ''.mpg'', ''.wmv''}"

definition infer_media_type :: "platform \<Rightarrow> string \<Rightarrow> thumb_error + ThumbnailMediaType" where
  "infer_media_type os relative_path =
     (let extension = py_lower (os_suffix os relative_path) in
      if extension \<in> IMAGE_EXTENSIONS then Inr IMAGE
      else if extension \<in> VIDEO_EXTENSIONS then Inr VIDEO
      else Inl ThumbnailPolicyError)"

text \<open>\<open>validate_library_relative_path\<close> (core/path_safety.py).\<close>

definition validate_library_relative_path :: "platform \<Rightarrow> string \<Rightarrow> thumb_error + string" where
  "validate_library_relative_path os raw_path =
     (if take 1 raw_path = ''/'' then Inl PathSafetyError
      else if ''..'' \<in> set (os_parts os raw_path) then Inl PathSafetyError
      else if CHR ''~'' \<in> set raw_path then Inl PathSafetyError
      else if CHR ''$'' \<in> set raw_path then Inl PathSafetyError
      else Inr raw_path)"

text \<open>\<open>a in b.parents\<close> for resolved paths: \<open>a\<close> is a proper ancestor of \<open>b\<close>.\<close>

definition in_parents :: "string list \<Rightarrow> string list \<Rightarrow> bool" where
  "in_parents a b = (length a < length b \<and> take (length a) b = a)"

definition validate_source_path :: "ThumbSettings \<Rightarrow> platform \<Rightarrow> string \<Rightarrow> string \<Rightarrow> thumb_error + unit" where
  "validate_source_path cfg os root_path relative_path =
     (let libraries_root_real = os_resolve os (libraries_root cfg);
          root_real = os_resolve os root_path
      in if root_real \<noteq> libraries_root_real \<and> \<not> in_parents libraries_root_real root_real
         then Inl ThumbnailPolicyError
         else
           (case validate_library_relative_path os relative_path of
              Inl e \<Rightarrow> Inl e
            | Inr rel \<Rightarrow>
               (let candidate = os_resolve_under os root_real rel
                in if candidate \<noteq> root_real \<and> \<not> in_parents root_real candidate
                   then Inl ThumbnailPolicyError
                   else Inr ())))"

definition build_group_key :: "LibraryFile \<Rightarrow> string option" where
  "build_group_key item =
     (case lf_hash_algorithm item of
        None \<Rightarrow> None
      | Some a \<Rightarrow>
         (case lf_content_hash item of
            None \<Rightarrow> None
          | Some h \<Rightarrow> Some (HashAlgorithm_value a @ '':'' @ bytes_hex h)))"

definition build_thumb_key :: "platform \<Rightarrow> LibraryFile \<Rightarrow> int \<Rightarrow> ThumbnailFormat \<Rightarrow> string" where
  "build_thumb_key os item max_dimension output_format =
     (let source_fingerprint =
            (case lf_hash_algorithm item of
               None \<Rightarrow> ''meta:'' @ py_str_int (lf_size_bytes item) @ '':'' @ py_str_int (lf_mtime_ns item)
             | Some a \<Rightarrow>
                (case lf_content_hash item of
                   None \<Rightarrow> ''meta:'' @ py_str_int (lf_size_bytes item) @ '':'' @
                             py_str_int (lf_mtime_ns item)
                 | Some h \<Rightarrow> HashAlgorithm_value a @ '':'' @ bytes_hex h));
          material = py_str_int (lf_id item) @ '':'' @ source_fingerprint @ '':'' @
                     py_str_int max_dimension @ '':'' @ ThumbnailFormat_value output_format @
                     '':thumb-v2''
      in os_sha256_hexdigest os material)"

definition build_output_relpath :: "string \<Rightarrow> ThumbnailFormat \<Rightarrow> string" where
  "build_output_relpath thumb_key output_format =
     (let extension = (if output_format = JPEG then ''jpg'' else ''webp'')
      in take 2 thumb_key @ ''/'' @ take 2 (drop 2 thumb_key) @ ''/'' @ thumb_key @ ''.'' @ extension)"

definition thumb_to_snapshot :: "Thumbnail \<Rightarrow> ThumbnailSnapshot" where
  "thumb_to_snapshot item =
     \<lparr>ts_id = t_id item,
      ts_thumb_key = t_thumb_key item,
      ts_file_id = t_file_id item,
      ts_group_key = t_group_key item,
      ts_status = t_status item,
      ts_media_type = t_media_type item,
      ts_format = t_format item,
      ts_max_dimension = t_max_dimension item,
      ts_version = t_version item,
      ts_source_size_bytes = t_source_size_bytes item,
      ts_source_mtime_ns = t_source_mtime_ns item,
      ts_output_relpath = t_output_relpath item,
      ts_width = t_width item,
      ts_height = t_height item,
      ts_bytes_size = t_bytes_size item,
      ts_error_code = t_error_code item,
      ts_error_message = t_error_message item,
      ts_error_count = t_error_count item,
      ts_retry_after = t_retry_after item,
      ts_worker_id = t_worker_id item,
      ts_worker_heartbeat_at = t_worker_heartbeat_at item,
      ts_lease_expires_at = t_lease_expires_at item,
      ts_created_at = t_created_at item,
      ts_updated_at = t_updated_at item,
      ts_started_at = t_started_at item,
      ts_finished_at = t_finished_at item\<rparr>"

subsection \<open>The store\<close>

text \<open>
  The committed \<open>thumbnails\<close> table is a list of rows; \<open>library_files\<close> and
  \<open>library_roots\<close> are read only.  The table has the primary key \<open>id\<close> and a unique
  constraint on \<open>thumb_key\<close>.  A new row gets the next identifier, and \<open>now\<close> also stands
  for the store's clock that fills \<open>created_at\<close> and \<open>updated_at\<close>.
\<close>

definition queue_depth :: "Thumbnail list \<Rightarrow> nat" where
  "queue_depth db = length (filter (\<lambda>t. t_status t \<in> {T_PENDING, T_RUNNING}) db)"

text \<open>
  The statement \<open>INSERT INTO thumbnails ... SELECT ... WHERE (SELECT COUNT(1) ...) < :queue_capacity\<close>:
  no row is selected when the queue is at capacity; a selected row is inserted, which the
  store refuses when its \<open>thumb_key\<close> is taken.
\<close>

definition conditional_insert :: "ThumbSettings \<Rightarrow> Thumbnail list \<Rightarrow> Thumbnail \<Rightarrow> thumb_error + Thumbnail list" where
  "conditional_insert cfg sess row =
     (if int (queue_depth sess) < thumbnail_queue_capacity cfg then
        (if \<exists>t \<in> set sess. t_thumb_key t = t_thumb_key row then Inl T_IntegrityError
         else Inr (sess @ [row]))
      else Inr sess)"

text \<open>The \<open>UPDATE\<close> that the session flushes for a changed row, by primary key.\<close>

definition update_thumbnail :: "Thumbnail list \<Rightarrow> Thumbnail \<Rightarrow> Thumbnail list" where
  "update_thumbnail db row = map (\<lambda>t. if t_id t = t_id row then row else t) db"

subsection \<open>request_thumbnail\<close>

definition request_thumbnail ::
  "ThumbSettings \<Rightarrow> platform \<Rightarrow> datetime \<Rightarrow> LibraryFile list \<Rightarrow> LibraryRoot list \<Rightarrow> Thumbnail list \<Rightarrow>
   int \<Rightarrow> int option \<Rightarrow> string option \<Rightarrow> Thumbnail list \<times> (thumb_error + ThumbnailSnapshot)" where
  "request_thumbnail cfg os now files roots db file_id max_dimension output_format =
     (case normalize_format cfg output_format of
        Inl e \<Rightarrow> (db, Inl e)
      | Inr normalized_format \<Rightarrow>
     (case normalize_dimension cfg max_dimension of
        Inl e \<Rightarrow> (db, Inl e)
      | Inr normalized_dimension \<Rightarrow>
     (case find (\<lambda>f. lf_id f = file_id) files of
        None \<Rightarrow> (db, Inl ThumbnailNotFoundError)
      | Some item \<Rightarrow>
     if lf_is_missing item then (db, Inl ThumbnailPolicyError)
     else
     (case find (\<lambda>r. lr_id r = lf_library_id item) roots of
        None \<Rightarrow> (db, Inl ThumbnailPolicyError)
      | Some root_row \<Rightarrow>
     (case validate_source_path cfg os (lr_root_path root_row) (lf_relative_path item) of
        Inl e \<Rightarrow> (db, Inl e)
      | Inr _ \<Rightarrow>
     (case infer_media_type os (lf_relative_path item) of
        Inl e \<Rightarrow> (db, Inl e)
      | Inr media_type \<Rightarrow>
     (let thumb_key = build_thumb_key os item normalized_dimension normalized_format;
          output_relpath = build_output_relpath thumb_key normalized_format;
          group_key = build_group_key item
      in
      case find (\<lambda>t. t_thumb_key t = thumb_key) db of
        Some existing \<Rightarrow>
          if t_status existing = T_FAILED \<and>
             (case coerce_utc (t_retry_after existing) of None \<Rightarrow> True | Some retry_after \<Rightarrow> retry_after \<le> now)
          then
            (let existing' = existing\<lparr>t_status := T_PENDING,
                                       t_error_code := None,
                                       t_error_message := None,
                                       t_retry_after := None,
                                       t_worker_id := None,
                                       t_worker_heartbeat_at := None,
                                       t_lease_expires_at := None,
                                       t_started_at := None,
                                       t_finished_at := None,
                                       t_updated_at := now\<rparr>
             in (update_thumbnail db existing', Inr (thumb_to_snapshot existing')))
          else (db, Inr (thumb_to_snapshot existing))
      | None \<Rightarrow>
          (let queued = \<lparr>t_id = next_rowid (map t_id db),
                         t_thumb_key = thumb_key,
                         t_file_id = lf_id item,
                         t_group_key = group_key,
                         t_status = T_PENDING,
                         t_media_type = media_type,
                         t_format = normalized_format,
                         t_max_dimension = normalized_dimension,
                         t_version = 2,
                         t_source_size_bytes = lf_size_bytes item,
                         t_source_mtime_ns = lf_mtime_ns item,
                         t_output_relpath = Some output_relpath,
                         t_width = None,
                         t_height = None,
                         t_bytes_size = None,
                         t_error_code = None,
                         t_error_message = None,
                         t_error_count = 0,
                         t_retry_after = None,
                         t_worker_id = None,
                         t_worker_heartbeat_at = None,
                         t_lease_expires_at = None,
                         t_created_at = now,
                         t_updated_at = now,
                         t_started_at = None,
                         t_finished_at = None\<rparr>
           in
           case conditional_insert cfg db queued of
             Inl e \<Rightarrow>
               (case find (\<lambda>t. t_thumb_key t = thumb_key) db of
                  None \<Rightarrow> (db, Inl e)
                | Some existing \<Rightarrow> (db, Inr (thumb_to_snapshot existing)))
           | Inr sess \<Rightarrow>
               (case find (\<lambda>t. t_thumb_key t = thumb_key) sess of
                  None \<Rightarrow>
                    (case find (\<lambda>t. t_thumb_key t = thumb_key) db of
                       Some existing \<Rightarrow> (db, Inr (thumb_to_snapshot existing))
                     | None \<Rightarrow> (db, Inl ThumbnailQueueFullError))
                | Some inserted_row \<Rightarrow>
                    (case find (\<lambda>t. t_thumb_key t = thumb_key) sess of
                       None \<Rightarrow> (sess, Inl ThumbnailPolicyError)
                     | Some created \<Rightarrow> (sess, Inr (thumb_to_snapshot created))))))))))))"

subsection \<open>prune_group_thumbnails\<close>

text \<open>
  The rows of the group with status ready or failed are deleted; the files that the loop
  unlinks are outside the model.
\<close>

definition prune_group_thumbnails :: "Thumbnail list \<Rightarrow> string \<Rightarrow> Thumbnail list \<times> (thumb_error + int)" where
  "prune_group_thumbnails db group_key =
     (let normalized_group = py_strip group_key in
      if normalized_group = [] then (db, Inl ThumbnailCleanupError)
      else
        (let doomed = (\<lambda>t. t_group_key t = Some normalized_group \<and> t_status t \<in> {T_READY, T_FAILED})
         in (filter (\<lambda>t. \<not> doomed t) db, Inr (int (length (filter doomed db))))))"

subsection \<open>Notions used in the statements about the thumbnail queue\<close>

text \<open>
  The two halves of \<open>request_thumbnail\<close>: what it computes from its arguments and the
  library tables before it looks at the \<open>thumbnails\<close> table, and what it does with the table.
\<close>

definition request_target ::
  "ThumbSettings \<Rightarrow> platform \<Rightarrow> LibraryFile list \<Rightarrow> LibraryRoot list \<Rightarrow> int \<Rightarrow> int option \<Rightarrow>
   string option \<Rightarrow> thumb_error + (LibraryFile \<times> ThumbnailMediaType \<times> ThumbnailFormat \<times> int)" where
  "request_target cfg os files roots file_id max_dimension output_format =
     (case normalize_format cfg output_format of
        Inl e \<Rightarrow> Inl e
      | Inr normalized_format \<Rightarrow>
     (case normalize_dimension cfg max_dimension of
        Inl e \<Rightarrow> Inl e
      | Inr normalized_dimension \<Rightarrow>
     (case find (\<lambda>f. lf_id f = file_id) files of
        None \<Rightarrow> Inl ThumbnailNotFoundError
      | Some item \<Rightarrow>
     if lf_is_missing item then Inl ThumbnailPolicyError
     else
     (case find (\<lambda>r. lr_id r = lf_library_id item) roots of
        None \<Rightarrow> Inl ThumbnailPolicyError
      | Some root_row \<Rightarrow>
     (case validate_source_path cfg os (lr_root_path root_row) (lf_relative_path item) of
        Inl e \<Rightarrow> Inl e
      | Inr _ \<Rightarrow>
     (case infer_media_type os (lf_relative_path item) of
        Inl e \<Rightarrow> Inl e
      | Inr media_type \<Rightarrow> Inr (item, media_type, normalized_format, normalized_dimension)))))))"

definition retry_eligible :: "datetime \<Rightarrow> Thumbnail \<Rightarrow> bool" where
  "retry_eligible now t =
     (t_status t = T_FAILED \<and> (case t_retry_after t of None \<Rightarrow> True | Some retry_after \<Rightarrow> retry_after \<le> now))"

definition reset_row :: "datetime \<Rightarrow> Thumbnail \<Rightarrow> Thumbnail" where
  "reset_row now existing =
     existing\<lparr>t_status := T_PENDING,
              t_error_code := None,
              t_error_message := None,
              t_retry_after := None,
              t_worker_id := None,
              t_worker_heartbeat_at := None,
              t_lease_expires_at := None,
              t_started_at := None,
              t_finished_at := None,
              t_updated_at := now\<rparr>"

definition queued_row ::
  "platform \<Rightarrow> datetime \<Rightarrow> Thumbnail list \<Rightarrow> LibraryFile \<Rightarrow> ThumbnailMediaType \<Rightarrow> ThumbnailFormat \<Rightarrow> int \<Rightarrow>
   Thumbnail" where
  "queued_row os now db item media_type normalized_format normalized_dimension =
     \<lparr>t_id = next_rowid (map t_id db),
      t_thumb_key = build_thumb_key os item normalized_dimension normalized_format,
      t_file_id = lf_id item,
      t_group_key = build_group_key item,
      t_status = T_PENDING,
      t_media_type = media_type,
      t_format = normalized_format,
      t_max_dimension = normalized_dimension,
      t_version = 2,
      t_source_size_bytes = lf_size_bytes item,
      t_source_mtime_ns = lf_mtime_ns item,
      t_output_relpath = Some (build_output_relpath
         (build_thumb_key os item normalized_dimension normalized_format) normalized_format),
      t_width = None,
      t_height = None,
      t_bytes_size = None,
      t_error_code = None,
      t_error_message = None,
      t_error_count = 0,
      t_retry_after = None,
      t_worker_id = None,
      t_worker_heartbeat_at = None,
      t_lease_expires_at = None,
      t_created_at = now,
      t_updated_at = now,
      t_started_at = None,
      t_finished_at = None\<rparr>"

definition lookup_or_admit ::
  "ThumbSettings \<Rightarrow> platform \<Rightarrow> datetime \<Rightarrow> Thumbnail list \<Rightarrow> LibraryFile \<Rightarrow> ThumbnailMediaType \<Rightarrow>
   ThumbnailFormat \<Rightarrow> int \<Rightarrow> Thumbnail list \<times> (thumb_error + ThumbnailSnapshot)" where
  "lookup_or_admit cfg os now db item media_type normalized_format normalized_dimension =
     (let thumb_key = build_thumb_key os item normalized_dimension normalized_format in
      case find (\<lambda>t. t_thumb_key t = thumb_key) db of
        Some existing \<Rightarrow>
          if retry_eligible now existing
          then (update_thumbnail db (reset_row now existing),
                Inr (thumb_to_snapshot (reset_row now existing)))
          else (db, Inr (thumb_to_snapshot existing))
      | None \<Rightarrow>
          if int (queue_depth db) < thumbnail_queue_capacity cfg
          then (db @ [queued_row os now db item media_type normalized_format normalized_dimension],
                Inr (thumb_to_snapshot
                  (queued_row os now db item media_type normalized_format normalized_dimension)))
          else (db, Inl ThumbnailQueueFullError))"

text \<open>The snapshot that carries the value of each field of a row.\<close>

definition snapshot_of :: "Thumbnail \<Rightarrow> ThumbnailSnapshot \<Rightarrow> bool" where
  "snapshot_of row snap =
     (ts_id snap = t_id row \<and> ts_thumb_key snap = t_thumb_key row \<and> ts_file_id snap = t_file_id row \<and>
      ts_group_key snap = t_group_key row \<and> ts_status snap = t_status row \<and>
      ts_media_type snap = t_media_type row \<and> ts_format snap = t_format row \<and>
      ts_max_dimension snap = t_max_dimension row \<and> ts_version snap = t_version row \<and>
      ts_source_size_bytes snap = t_source_size_bytes row \<and>
      ts_source_mtime_ns snap = t_source_mtime_ns row \<and>
      ts_output_relpath snap = t_output_relpath row \<and> ts_width snap = t_width row \<and>
      ts_height snap = t_height row \<and> ts_bytes_size snap = t_bytes_size row \<and>
      ts_error_code snap = t_error_code row \<and> ts_error_message snap = t_error_message row \<and>
      ts_error_count snap = t_error_count row \<and> ts_retry_after snap = t_retry_after row \<and>
      ts_worker_id snap = t_worker_id row \<and>
      ts_worker_heartbeat_at snap = t_worker_heartbeat_at row \<and>
      ts_lease_expires_at snap = t_lease_expires_at row \<and> ts_created_at snap = t_created_at row \<and>
      ts_updated_at snap = t_updated_at row \<and> ts_started_at snap = t_started_at row \<and>
      ts_finished_at snap = t_finished_at row)"

section \<open>Example inputs\<close>

definition ex_wal_cfg :: WalSettings where
  "ex_wal_cfg = \<lparr>wal_checkpoint_default_mode = ''passive'',
                 wal_checkpoint_min_interval_seconds = 900,
                 wal_checkpoint_allow_truncate = False\<rparr>"

definition ex_wal_row :: "int \<Rightarrow> datetime \<Rightarrow> WalMaintenanceStatus \<Rightarrow> WalMaintenanceJob" where
  "ex_wal_row i t st =
     \<lparr>w_id = i, w_requested_mode = RESTART, w_status = st, w_requested_by = Some ''api'',
      w_reason = None, w_execute_after = t, w_retry_count = 0, w_retry_after = Some t,
      w_worker_id = None, w_worker_heartbeat_at = None, w_lease_expires_at = None,
      w_checkpoint_busy = None, w_checkpoint_log_frames = None, w_checkpointed_frames = None,
      w_error_code = None, w_error_message = None, w_created_at = t, w_updated_at = t,
      w_started_at = None, w_finished_at = None\<rparr>"


definition ex_retryable_job :: Job where
  "ex_retryable_job =
     \<lparr>job_id = ''job-1'', kind = SCAN, status = RETRYABLE, dry_run = True,
      worker_id = None, worker_heartbeat_at = None, lease_expires_at = None,
      progress = 0, total_items = None, processed_items = 0, payload = [],
      error_code = Some ''LEASE_EXPIRED'', error_message = None,
      created_at = 10, updated_at = 20, started_at = Some 15, finished_at = Some 20\<rparr>"

definition ex_completed_job :: Job where
  "ex_completed_job = ex_retryable_job\<lparr>status := COMPLETED, error_code := None\<rparr>"

definition ex_cfg :: Settings where
  "ex_cfg = \<lparr>s_dry_run = True, s_allow_real_delete = False, s_job_lock_ttl_seconds = 300\<rparr>"

definition ex_pending_job :: Job where
  "ex_pending_job =
     \<lparr>job_id = ''job-1'', kind = SCAN, status = PENDING, dry_run = True,
      worker_id = None, worker_heartbeat_at = None, lease_expires_at = None,
      progress = 0, total_items = None, processed_items = 0, payload = [],
      error_code = None, error_message = None,
      created_at = 10, updated_at = 10, started_at = None, finished_at = None\<rparr>"

definition ex_running_job :: Job where
  "ex_running_job =
     ex_pending_job\<lparr>status := RUNNING, worker_id := Some ''w1'', worker_heartbeat_at := Some 20,
       lease_expires_at := Some 50, started_at := Some 20, updated_at := 20\<rparr>"


definition ex_finished_job :: Job where
  "ex_finished_job =
     \<lparr>job_id = ''job-1'', kind = SCAN, status = COMPLETED, dry_run = True,
      worker_id = Some ''w1'', worker_heartbeat_at = Some 30, lease_expires_at = None,
      progress = 1, total_items = None, processed_items = 0, payload = [],
      error_code = None, error_message = None,
      created_at = 10, updated_at = 30, started_at = Some 20, finished_at = Some 30\<rparr>"

text \<open>
  The table that \<open>apply_migrations\<close> leaves of two legacy running jobs (as in
  \<open>test_db_migrations.py\<close>): the older job still running, without worker or lease, and the
  other one retryable.
\<close>

definition ex_migrated_running :: Job where
  "ex_migrated_running =
     \<lparr>job_id = ''job-a'', kind = SCAN, status = RUNNING, dry_run = True,
      worker_id = None, worker_heartbeat_at = None, lease_expires_at = None,
      progress = 0, total_items = None, processed_items = 0, payload = [],
      error_code = None, error_message = None,
      created_at = 10, updated_at = 10, started_at = None, finished_at = None\<rparr>"

definition ex_migrated_retryable :: Job where
  "ex_migrated_retryable =
     \<lparr>job_id = ''job-b'', kind = HASH, status = RETRYABLE, dry_run = True,
      worker_id = None, worker_heartbeat_at = None, lease_expires_at = None,
      progress = 0, total_items = None, processed_items = 0, payload = [],
      error_code = Some ''MIGRATION_MUTEX_RECOVERY'',
      error_message = Some ''Reclassified during migration to satisfy single running scan/hash invariant'',
      created_at = 20, updated_at = 100, started_at = None, finished_at = Some 100\<rparr>"

definition ex_job_row :: "string \<Rightarrow> string \<Rightarrow> datetime \<Rightarrow> job_row" where
  "ex_job_row i k t =
     \<lparr>r_id = i, r_kind = k, r_status = ''RUNNING'', r_worker_id = None,
      r_worker_heartbeat_at = None, r_lease_expires_at = None, r_error_code = None,
      r_error_message = None, r_created_at = t, r_updated_at = t, r_finished_at = None\<rparr>"

definition ex_mig_db :: mig_db where
  "ex_mig_db =
     \<lparr>jobs_exists = True,
      jobs_rows = [ex_job_row ''job-a'' ''SCAN'' 10, ex_job_row ''job-b'' ''HASH'' 20],
      has_execution_backend = False, has_lease_expires_at = True, has_error_code = True,
      single_active_index = False, sqlite_dialect = True,
      applied_versions = [1, 2, 3, 4, 5, 6]\<rparr>"

text \<open>
  A platform for the examples: POSIX paths without symbolic links, \<open>.\<close> or \<open>..\<close>, so that
  resolving a path splits it at the slashes; the digest is replaced by the identity, of which
  the examples use only that it is a function of the material.
\<close>

fun split_at :: "char \<Rightarrow> string \<Rightarrow> string list" where
  "split_at c [] = [[]]"
| "split_at c (x # xs) =
     (if x = c then [] # split_at c xs
      else (case split_at c xs of [] \<Rightarrow> [[x]] | w # ws \<Rightarrow> (x # w) # ws))"

definition ex_parts :: "string \<Rightarrow> string list" where
  "ex_parts p = filter (\<lambda>w. w \<noteq> []) (split_at (CHR ''/'') p)"

definition ex_suffix :: "string \<Rightarrow> string" where
  "ex_suffix p =
     (case rev (ex_parts p) of
        [] \<Rightarrow> []
      | name # _ \<Rightarrow>
         (if CHR ''.'' \<notin> set name then []
          else (let i = length name - length (takeWhile (\<lambda>c. c \<noteq> CHR ''.'') (rev name)) - 1
                in if 0 < i \<and> i < length name - 1 then drop i name else [])))"

definition ex_platform :: platform where
  "ex_platform =
     \<lparr>os_sha256_hexdigest = (\<lambda>m. m),
      os_resolve = (\<lambda>p. ''/'' # ex_parts p),
      os_resolve_under = (\<lambda>root rel. root @ ex_parts rel),
      os_parts = ex_parts,
      os_suffix = ex_suffix\<rparr>"

definition ex_thumb_cfg :: ThumbSettings where
  "ex_thumb_cfg =
     \<lparr>libraries_root = ''/libraries'', thumbnail_max_dimension = 256,
      thumbnail_default_format = ''jpeg'', thumbnail_queue_capacity = 1\<rparr>"

definition ex_file :: "int \<Rightarrow> string \<Rightarrow> LibraryFile" where
  "ex_file i p =
     \<lparr>lf_id = i, lf_library_id = 1, lf_relative_path = p, lf_size_bytes = 1024,
      lf_mtime_ns = 1700000000000000000, lf_is_missing = False, lf_hash_algorithm = None,
      lf_content_hash = None\<rparr>"

definition ex_files :: "LibraryFile list" where
  "ex_files = [ex_file 1 ''media/a.jpg'', ex_file 2 ''media/b.jpg'']"

definition ex_roots :: "LibraryRoot list" where
  "ex_roots = [\<lparr>lr_id = 1, lr_root_path = ''/libraries/lib-cap''\<rparr>]"

text \<open>The row of a thumbnail of the first file that a worker has recorded as failed.\<close>

definition ex_failed_thumbnail :: Thumbnail where
  "ex_failed_thumbnail =
     (queued_row ex_platform 10 [] (ex_file 1 ''media/a.jpg'') IMAGE JPEG 256)
       \<lparr>t_status := T_FAILED, t_error_code := Some ''THUMB_GENERATION_FAILED'',
        t_error_message := Some ''decode failed'', t_error_count := 1,
        t_retry_after := Some 50, t_started_at := Some 20, t_finished_at := Some 20,
        t_updated_at := 20\<rparr>"

text \<open>The row that a request for the second file adds to a table that holds the failed row.\<close>

definition ex_queued_thumbnail :: Thumbnail where
  "ex_queued_thumbnail =
     queued_row ex_platform 100 [ex_failed_thumbnail] (ex_file 2 ''media/b.jpg'') IMAGE JPEG 256"

section \<open>Properties of the job coordinator\<close>

subsection \<open>The store and the recovery loop\<close>

lemma recover_loop_eq:
  "recover_loop now db = Inr (recovered now db, length (filter (is_stale now) db))"
  by (induction db) (auto simp: is_stale_def enforce_transition_def recovered_def recover_row_def)

lemma update_row_upd:
  "update_row db j = (if index_conflict db j then Inl IntegrityError else Inr (upd db j))"
  by (simp add: update_row_def)

lemma session_get_Some_id: "session_get db jid = Some job \<Longrightarrow> job_id job = jid"
  by (auto simp: session_get_def find_Some_iff)

lemma session_get_Some_mem: "session_get db jid = Some job \<Longrightarrow> job \<in> set db"
  by (auto simp: session_get_def find_Some_iff)

lemma session_get_upd:
  "session_get (upd db j) jid =
     (if jid = job_id j then (case session_get db jid of None \<Rightarrow> None | Some _ \<Rightarrow> Some j)
      else session_get db jid)"
  unfolding upd_def by (induction db) (auto simp: session_get_def)

lemma cancelled_row_fields:
  "status (cancelled_row now msg job) = CANCELLED"
  "finished_at (cancelled_row now msg job) = Some now"
  "lease_expires_at (cancelled_row now msg job) = None"
  "job_id (cancelled_row now msg job) = job_id job"
  "worker_id (cancelled_row now msg job) = worker_id job"
  "kind (cancelled_row now msg job) = kind job"
  by (simp_all add: cancelled_row_def Let_def split: option.splits)

subsection \<open>What each operation leaves in the table\<close>

text \<open>
  Each lemma reduces a property of the committed table after an operation to the property of
  the tables the operation can commit.
\<close>

lemma heartbeat_table:
  assumes "P db"
    and "\<And>job. session_get db jid = Some job \<Longrightarrow> status job = RUNNING \<Longrightarrow> P (upd db (expire_lease now job))"
    and "\<And>job job2. session_get db jid = Some job \<Longrightarrow> status job = RUNNING \<Longrightarrow>
           job_id job2 = job_id job \<Longrightarrow> kind job2 = kind job \<Longrightarrow> status job2 = RUNNING \<Longrightarrow>
           P (upd db (refresh_lease cfg now (py_strip wid) job2))"
  shows "P (fst (heartbeat cfg now db jid wid prog processed))"
  unfolding heartbeat_def Let_def update_row_upd to_snapshot_def enforce_transition_def
  using assms
  by (simp split: option.split sum.split)

lemma finish_job_table:
  assumes "P db"
    and "\<And>job j'. session_get db jid = Some job \<Longrightarrow> status job = RUNNING \<Longrightarrow>
           job_id j' = job_id job \<Longrightarrow> kind j' = kind job \<Longrightarrow> status j' \<in> {COMPLETED, FAILED} \<Longrightarrow>
           lease_expires_at j' = None \<Longrightarrow> worker_id j' = worker_id job \<Longrightarrow> P (upd db j')"
  shows "P (fst (finish_job now db jid wid success msg))"
  unfolding finish_job_def Let_def update_row_upd to_snapshot_def enforce_transition_def
  using assms
  by (simp split: option.split sum.split)

lemma reset_retryable_job_table:
  assumes "P db"
    and "\<And>job j'. session_get db jid = Some job \<Longrightarrow> status job = RETRYABLE \<Longrightarrow>
           job_id j' = job_id job \<Longrightarrow> kind j' = kind job \<Longrightarrow> status j' = PENDING \<Longrightarrow>
           lease_expires_at j' = None \<Longrightarrow> worker_id j' = None \<Longrightarrow> P (upd db j')"
  shows "P (fst (reset_retryable_job now db jid))"
proof (cases "session_get db jid")
  case None
  then show ?thesis using assms(1) by (simp add: reset_retryable_job_def)
next
  case (Some job)
  show ?thesis
  proof (cases "status job = RETRYABLE")
    case True
    with Some assms show ?thesis
      unfolding reset_retryable_job_def Let_def update_row_upd to_snapshot_def enforce_transition_def
      by simp
  next
    case False
    with Some assms(1) show ?thesis
      unfolding reset_retryable_job_def Let_def update_row_upd to_snapshot_def enforce_transition_def
      by (cases "status job") simp_all
  qed
qed

lemma cancel_job_table:
  assumes "P db"
    and "\<And>job j'. session_get db jid = Some job \<Longrightarrow>
           job_id j' = job_id job \<Longrightarrow> kind j' = kind job \<Longrightarrow> status j' = CANCELLED \<Longrightarrow>
           lease_expires_at j' = None \<Longrightarrow> worker_id j' = worker_id job \<Longrightarrow> P (upd db j')"
  shows "P (fst (cancel_job now db jid msg))"
  unfolding cancel_job_def Let_def update_row_upd to_snapshot_def
  using assms
  by (simp add: cancelled_row_fields split: option.split sum.split)

lemma recover_stale_jobs_table: "fst (recover_stale_jobs now db) = recovered now db"
  by (simp add: recover_stale_jobs_def recover_loop_eq)

lemma claim_candidate_props:
  assumes "claim_candidate sess = Some c"
  shows "c \<in> set sess \<and> kind c \<in> {SCAN, HASH} \<and> status c = PENDING"
proof -
  have "first_by_created_id xs = Some c \<Longrightarrow> c \<in> set xs" for xs
    by (induction xs arbitrary: c) (auto split: option.splits if_splits)
  with assms show ?thesis
    unfolding claim_candidate_def by fastforce
qed

lemma claim_table:
  assumes "P db"
    and "\<And>c j'. c \<in> set (recovered now db) \<Longrightarrow> kind c \<in> {SCAN, HASH} \<Longrightarrow> status c = PENDING \<Longrightarrow>
           job_id j' = job_id c \<Longrightarrow> kind j' = kind c \<Longrightarrow> status j' = RUNNING \<Longrightarrow>
           lease_expires_at j' \<noteq> None \<Longrightarrow> worker_id j' \<noteq> None \<Longrightarrow>
           P (upd (recovered now db) j')"
  shows "P (fst (claim_pending_scan_hash_job cfg now db wid))"
proof (cases "claim_candidate (recovered now db)")
  case None
  then show ?thesis
    using assms(1)
    by (simp add: claim_pending_scan_hash_job_def Let_def recover_stale_jobs_in_def recover_loop_eq)
next
  case (Some c)
  note props = claim_candidate_props [OF Some]
  show ?thesis
    unfolding claim_pending_scan_hash_job_def Let_def recover_stale_jobs_in_def recover_loop_eq
      update_row_upd to_snapshot_def
    using assms(1) Some props
    by (auto split: option.split intro!: assms(2) [of c])
qed

lemma create_job_table:
  assumes "P db"
    and "\<And>j. k \<in> {SCAN, HASH} \<Longrightarrow> fresh_row_ok (recovered now db) j \<Longrightarrow> kind j = k \<Longrightarrow>
           P (recovered now db @ [j])"
    and "\<And>j. k \<notin> {SCAN, HASH} \<Longrightarrow> fresh_row_ok db j \<Longrightarrow> kind j = k \<Longrightarrow> P (db @ [j])"
  shows "P (fst (create_job cfg now new_id db k pl dry))"
proof -
  let ?eff = "case dry of None \<Rightarrow> s_dry_run cfg | Some d \<Rightarrow> d"
  let ?job = "new_job new_id k ?eff pl now"
  have f: "status ?job = PENDING" "worker_id ?job = None" "lease_expires_at ?job = None"
    "kind ?job = k" "job_id ?job = new_id"
    by (simp_all add: new_job_def)
  show ?thesis
  proof (cases "k \<in> {SCAN, HASH}")
    case True
    have "fresh_row_ok (recovered now db) ?job"
      if "\<not> (\<exists>r \<in> set (recovered now db). job_id r = new_id)"
        "\<not> (\<exists>j \<in> set (recovered now db). is_active_scan_hash j)"
      using that f by (auto simp: fresh_row_ok_def)
    then show ?thesis
      using True assms(1) assms(2) [of ?job] f
      unfolding create_job_def Let_def recover_stale_jobs_in_def recover_loop_eq
        requires_scan_hash_mutex_def insert_row_def to_snapshot_def
      by (auto split: sum.split)
  next
    case False
    have "fresh_row_ok db ?job" if "\<not> (\<exists>r \<in> set db. job_id r = new_id)"
      using that f False by (auto simp: fresh_row_ok_def)
    then show ?thesis
      using False assms(1) assms(3) [of ?job] f
      unfolding create_job_def Let_def requires_scan_hash_mutex_def insert_row_def to_snapshot_def
      by (auto split: sum.split)
  qed
qed

subsection \<open>The admission mutex is kept by every operation\<close>

lemma map_job_id_upd:
  "job \<in> set db \<Longrightarrow> job_id j' = job_id job \<Longrightarrow> map job_id (upd db j') = map job_id db"
  by (simp add: upd_def)

lemma set_upd: "r \<in> set (upd db j') \<Longrightarrow> r = j' \<or> (r \<in> set db \<and> job_id r \<noteq> job_id j')"
  by (auto simp: upd_def split: if_splits)

lemma mutex_inv_upd:
  assumes "mutex_inv db" "job \<in> set db" "job_id j' = job_id job"
    "is_active_scan_hash j' \<longrightarrow> is_active_scan_hash job"
  shows "mutex_inv (upd db j')"
proof -
  have d: "distinct (map job_id (upd db j'))"
    using assms by (simp add: map_job_id_upd mutex_inv_def)
  have q: "\<And>x y. x \<in> set db \<Longrightarrow> y \<in> set db \<Longrightarrow> is_active_scan_hash x \<Longrightarrow>
      is_active_scan_hash y \<Longrightarrow> job_id x = job_id y"
    using assms(1) unfolding mutex_inv_def by blast
  have p: "job_id a = job_id b"
    if "a \<in> set (upd db j')" "b \<in> set (upd db j')" "is_active_scan_hash a" "is_active_scan_hash b"
    for a b
  proof -
    have a: "a = j' \<or> (a \<in> set db \<and> job_id a \<noteq> job_id j')"
      using that(1) by (rule set_upd)
    have b: "b = j' \<or> (b \<in> set db \<and> job_id b \<noteq> job_id j')"
      using that(2) by (rule set_upd)
    show ?thesis
    proof (cases "a = j'")
      case True
      note aj = this
      show ?thesis
      proof (cases "b = j'")
        case True
        with aj show ?thesis by simp
      next
        case False
        with b have "b \<in> set db" "job_id b \<noteq> job_id j'" by auto
        moreover have "is_active_scan_hash job" using aj that(3) assms(4) by simp
        ultimately show ?thesis using q [of b job] assms(2,3) that(4) by simp
      qed
    next
      case False
      with a have a': "a \<in> set db" "job_id a \<noteq> job_id j'" by auto
      show ?thesis
      proof (cases "b = j'")
        case True
        then have "is_active_scan_hash job" using that(4) assms(4) by simp
        then show ?thesis using q [of a job] a' assms(2,3) that(3) by simp
      next
        case False
        with b have "b \<in> set db" by auto
        then show ?thesis using q [of a b] a' that(3,4) by simp
      qed
    qed
  qed
  show ?thesis
    unfolding mutex_inv_def using d p by blast
qed

lemma recover_row_active: "is_active_scan_hash (recover_row now j) = is_active_scan_hash j"
  by (simp add: recover_row_def is_stale_def mark_stale_def is_active_scan_hash_def)

lemma recover_row_id: "job_id (recover_row now j) = job_id j"
  by (simp add: recover_row_def mark_stale_def)

lemma recovered_active_iff:
  "(\<exists>j \<in> set (recovered now db). is_active_scan_hash j) = (\<exists>j \<in> set db. is_active_scan_hash j)"
  by (simp add: recovered_def recover_row_active)

lemma map_job_id_recovered: "map job_id (recovered now db) = map job_id db"
  by (simp add: recovered_def recover_row_id)

lemma mutex_inv_recovered:
  assumes "mutex_inv db"
  shows "mutex_inv (recovered now db)"
proof -
  have q: "\<And>x y. x \<in> set db \<Longrightarrow> y \<in> set db \<Longrightarrow> is_active_scan_hash x \<Longrightarrow>
      is_active_scan_hash y \<Longrightarrow> job_id x = job_id y"
    using assms unfolding mutex_inv_def by blast
  have p: "job_id a = job_id b"
    if "a \<in> set (recovered now db)" "b \<in> set (recovered now db)"
       "is_active_scan_hash a" "is_active_scan_hash b" for a b
  proof -
    from that(1) have "a \<in> recover_row now ` set db"
      by (simp add: recovered_def)
    then obtain a0 where a0: "a0 \<in> set db" "a = recover_row now a0"
      by blast
    from that(2) have "b \<in> recover_row now ` set db"
      by (simp add: recovered_def)
    then obtain b0 where b0: "b0 \<in> set db" "b = recover_row now b0"
      by blast
    have aa: "is_active_scan_hash a0"
      using that(3) by (simp add: a0(2) recover_row_active)
    have bb: "is_active_scan_hash b0"
      using that(4) by (simp add: b0(2) recover_row_active)
    have "job_id a0 = job_id b0"
      by (rule q [OF a0(1) b0(1) aa bb])
    then show ?thesis
      by (simp add: a0(2) b0(2) recover_row_id)
  qed
  have "distinct (map job_id (recovered now db))"
    using assms by (simp add: map_job_id_recovered mutex_inv_def)
  then show ?thesis
    unfolding mutex_inv_def using p by blast
qed

lemma mutex_inv_append:
  assumes "mutex_inv sess" "fresh_row_ok sess j"
  shows "mutex_inv (sess @ [j])"
proof -
  have d: "distinct (map job_id (sess @ [j]))"
    using assms by (simp add: mutex_inv_def fresh_row_ok_def)
  have q: "\<And>x y. x \<in> set sess \<Longrightarrow> y \<in> set sess \<Longrightarrow> is_active_scan_hash x \<Longrightarrow>
      is_active_scan_hash y \<Longrightarrow> job_id x = job_id y"
    using assms(1) unfolding mutex_inv_def by blast
  have n: "is_active_scan_hash j \<Longrightarrow> r \<in> set sess \<Longrightarrow> \<not> is_active_scan_hash r" for r
    using assms(2) by (simp add: fresh_row_ok_def is_active_scan_hash_def)
  have p: "job_id a = job_id b"
    if "a \<in> set (sess @ [j])" "b \<in> set (sess @ [j])" "is_active_scan_hash a" "is_active_scan_hash b"
    for a b
  proof -
    have "a = j \<or> a \<in> set sess" "b = j \<or> b \<in> set sess"
      using that(1,2) by auto
    then show ?thesis
      using q [of a b] n [of a] n [of b] that(3,4) by blast
  qed
  show ?thesis
    unfolding mutex_inv_def using d p by blast
qed

lemma filter_two_distinct_ids:
  "distinct (map f xs) \<Longrightarrow> 2 \<le> length (filter P xs) \<Longrightarrow>
     \<exists>a \<in> set xs. \<exists>b \<in> set xs. P a \<and> P b \<and> f a \<noteq> f b"
proof (induction xs)
  case Nil
  then show ?case by simp
next
  case (Cons x xs)
  show ?case
  proof (cases "P x")
    case False
    with Cons show ?thesis by auto
  next
    case True
    with Cons.prems have "1 \<le> length (filter P xs)" by simp
    then have "filter P xs \<noteq> []" by auto
    then obtain y where y: "y \<in> set xs" "P y"
      unfolding filter_empty_conv by blast
    with Cons.prems(1) have "f x \<noteq> f y" by auto
    with True y show ?thesis by auto
  qed
qed

lemma mutex_inv_at_most_one:
  assumes "mutex_inv db"
  shows "length (filter is_active_scan_hash db) \<le> 1"
proof (rule ccontr)
  assume "\<not> length (filter is_active_scan_hash db) \<le> 1"
  then have "2 \<le> length (filter is_active_scan_hash db)" by simp
  with assms filter_two_distinct_ids [of job_id db is_active_scan_hash]
  show False unfolding mutex_inv_def by blast
qed

lemma run_op_mutex_inv:
  assumes "mutex_inv db"
  shows "mutex_inv (run_op cfg now op db)"
proof (cases op)
  case (CreateJob new_id k pl dry)
  show ?thesis
    unfolding CreateJob run_op.simps
  proof (rule create_job_table)
    show "mutex_inv db" by fact
  next
    fix j :: Job
    assume "fresh_row_ok (recovered now db) j"
    then show "mutex_inv (recovered now db @ [j])"
      using mutex_inv_append mutex_inv_recovered [OF assms] by blast
  next
    fix j :: Job
    assume "fresh_row_ok db j"
    then show "mutex_inv (db @ [j])"
      using mutex_inv_append assms by blast
  qed
next
  case (ClaimPendingScanHashJob wid)
  show ?thesis
    unfolding ClaimPendingScanHashJob run_op.simps
  proof (rule claim_table)
    show "mutex_inv db" by fact
  next
    fix c j' :: Job
    assume "c \<in> set (recovered now db)" "kind c \<in> {SCAN, HASH}" "status c = PENDING"
      "job_id j' = job_id c" "kind j' = kind c" "status j' = RUNNING"
    then show "mutex_inv (upd (recovered now db) j')"
      using mutex_inv_upd [OF mutex_inv_recovered [OF assms], of c now j']
      by (simp add: is_active_scan_hash_def)
  qed
next
  case (Heartbeat jid wid prog processed)
  show ?thesis
    unfolding Heartbeat run_op.simps
  proof (rule heartbeat_table)
    show "mutex_inv db" by fact
  next
    fix job :: Job
    assume "session_get db jid = Some job" "status job = RUNNING"
    then show "mutex_inv (upd db (expire_lease now job))"
      using mutex_inv_upd [OF assms, of job "expire_lease now job"] session_get_Some_mem [of db jid job]
      by (simp add: is_active_scan_hash_def expire_lease_def)
  next
    fix job job2 :: Job
    assume "session_get db jid = Some job" "status job = RUNNING" "job_id job2 = job_id job"
      "kind job2 = kind job" "status job2 = RUNNING"
    then show "mutex_inv (upd db (refresh_lease cfg now (py_strip wid) job2))"
      using mutex_inv_upd [OF assms, of job "refresh_lease cfg now (py_strip wid) job2"]
        session_get_Some_mem [of db jid job]
      by (simp add: is_active_scan_hash_def refresh_lease_def)
  qed
next
  case (FinishJob jid wid success msg)
  show ?thesis
    unfolding FinishJob run_op.simps
  proof (rule finish_job_table)
    show "mutex_inv db" by fact
  next
    fix job j' :: Job
    assume "session_get db jid = Some job" "status job = RUNNING" "job_id j' = job_id job"
      "kind j' = kind job" "status j' \<in> {COMPLETED, FAILED}"
    then show "mutex_inv (upd db j')"
      using mutex_inv_upd [OF assms, of job j'] session_get_Some_mem [of db jid job]
      by (auto simp: is_active_scan_hash_def)
  qed
next
  case (ResetRetryableJob jid)
  show ?thesis
    unfolding ResetRetryableJob run_op.simps
  proof (rule reset_retryable_job_table)
    show "mutex_inv db" by fact
  next
    fix job j' :: Job
    assume "session_get db jid = Some job" "status job = RETRYABLE" "job_id j' = job_id job"
      "kind j' = kind job" "status j' = PENDING"
    then show "mutex_inv (upd db j')"
      using mutex_inv_upd [OF assms, of job j'] session_get_Some_mem [of db jid job]
      by (auto simp: is_active_scan_hash_def)
  qed
next
  case (CancelJob jid msg)
  show ?thesis
    unfolding CancelJob run_op.simps
  proof (rule cancel_job_table)
    show "mutex_inv db" by fact
  next
    fix job j' :: Job
    assume "session_get db jid = Some job" "job_id j' = job_id job"
      "kind j' = kind job" "status j' = CANCELLED"
    then show "mutex_inv (upd db j')"
      using mutex_inv_upd [OF assms, of job j'] session_get_Some_mem [of db jid job]
      by (auto simp: is_active_scan_hash_def)
  qed
next
  case RecoverStaleJobs
  show ?thesis
    unfolding RecoverStaleJobs run_op.simps recover_stale_jobs_table
    using assms by (rule mutex_inv_recovered)
qed

subsection \<open>cancel_job\<close>

text \<open>
  Claim C5 as stated is false: \<open>cancel_job\<close> on a retryable job does not raise
  \<open>InvalidJobStateError\<close>; the transition table allows retryable to cancelled, and the row
  is committed as cancelled.
\<close>

theorem cancel_job_retryable_counterexample:
  "status ex_retryable_job = RETRYABLE \<and>
   cancel_job 100 [ex_retryable_job] ''job-1'' None =
     ([ex_retryable_job\<lparr>status := CANCELLED, finished_at := Some 100, updated_at := 100\<rparr>],
      Inr (ex_retryable_job\<lparr>status := CANCELLED, finished_at := Some 100, updated_at := 100\<rparr>))"
  by (simp add: cancel_job_def ex_retryable_job_def session_get_def enforce_transition_def
        cancelled_row_def update_row_def upd_def index_conflict_def index_member_def
        to_snapshot_def Let_def)

text \<open>
  Claim C5, amended: for a job that exists, \<open>cancel_job\<close> succeeds exactly when the status is
  pending, running or retryable; it then commits the row with status cancelled,
  \<open>finished_at = now\<close> and no lease, and leaves every other row as it was.  On a completed,
  failed or cancelled job it raises \<open>InvalidJobStateError\<close> and the table is unchanged.
\<close>

theorem cancel_job_transitions:
  assumes "session_get db jid = Some job"
  shows "(status job \<in> {PENDING, RUNNING, RETRYABLE} \<longrightarrow>
            (\<exists>db' job'. cancel_job now db jid msg = (db', Inr job') \<and>
               session_get db' jid = Some job' \<and> status job' = CANCELLED \<and>
               finished_at job' = Some now \<and> lease_expires_at job' = None \<and>
               (\<forall>other. other \<noteq> jid \<longrightarrow> session_get db' other = session_get db other))) \<and>
         (status job \<in> {COMPLETED, FAILED, CANCELLED} \<longrightarrow>
            cancel_job now db jid msg = (db, Inl InvalidJobStateError))"
proof -
  let ?job' = "cancelled_row now msg job"
  have id: "job_id ?job' = jid"
    using assms by (simp add: cancelled_row_fields session_get_Some_id)
  have upd: "update_row db ?job' = Inr (upd db ?job')"
    by (simp add: update_row_def index_conflict_def index_member_def cancelled_row_fields)
  have ok: "status job \<in> {PENDING, RUNNING, RETRYABLE} \<Longrightarrow>
      cancel_job now db jid msg = (upd db ?job', Inr ?job')"
    using assms upd by (auto simp: cancel_job_def enforce_transition_def to_snapshot_def Let_def)
  have get: "session_get (upd db ?job') k = (if k = jid then Some ?job' else session_get db k)" for k
    using session_get_upd [of db ?job' k] id assms by auto
  have bad: "status job \<in> {COMPLETED, FAILED, CANCELLED} \<Longrightarrow>
      cancel_job now db jid msg = (db, Inl InvalidJobStateError)"
    using assms by (auto simp: cancel_job_def enforce_transition_def)
  show ?thesis
    using ok bad get by (auto simp: cancelled_row_fields)
qed

theorem cancel_job_transitions_witness:
  "session_get [ex_retryable_job] ''job-1'' = Some ex_retryable_job \<and>
   status ex_retryable_job \<in> {PENDING, RUNNING, RETRYABLE} \<and>
   (\<exists>db' job'. cancel_job 100 [ex_retryable_job] ''job-1'' None = (db', Inr job') \<and>
      status job' = CANCELLED \<and> finished_at job' = Some 100 \<and> lease_expires_at job' = None) \<and>
   session_get [ex_completed_job] ''job-1'' = Some ex_completed_job \<and>
   status ex_completed_job \<in> {COMPLETED, FAILED, CANCELLED} \<and>
   cancel_job 100 [ex_completed_job] ''job-1'' None = ([ex_completed_job], Inl InvalidJobStateError)"
proof -
  have a: "session_get [ex_retryable_job] ''job-1'' = Some ex_retryable_job"
    by (simp add: session_get_def ex_retryable_job_def)
  have b: "session_get [ex_completed_job] ''job-1'' = Some ex_completed_job"
    by (simp add: session_get_def ex_completed_job_def ex_retryable_job_def)
  have c: "status ex_retryable_job = RETRYABLE" "status ex_completed_job = COMPLETED"
    by (simp_all add: ex_completed_job_def ex_retryable_job_def)
  show ?thesis
    using cancel_job_transitions [OF a, of 100 None] cancel_job_transitions [OF b, of 100 None] a b c
    by auto
qed

subsection \<open>heartbeat on an expired lease\<close>

text \<open>
  Claim C3 as stated is false: it speaks of every call \<open>heartbeat(job_id, worker_id)\<close> on a
  running job whose lease has expired, but a blank \<open>worker_id\<close> is rejected with
  \<open>ValueError\<close> before the job is read, and the row stays running.
\<close>

theorem heartbeat_blank_worker_counterexample:
  "status ex_running_job = RUNNING \<and> lease_expires_at ex_running_job = Some 50 \<and> (50::int) \<le> 100 \<and>
   heartbeat ex_cfg 100 [ex_running_job] ''job-1'' ''  '' None None = ([ex_running_job], Inl ValueError)"
  by (simp add: heartbeat_def ex_running_job_def ex_pending_job_def py_strip_def py_isspace_def)

text \<open>
  Claim C3, amended: for a job with status running whose \<open>lease_expires_at\<close> is null or at
  most \<open>now\<close>, \<open>heartbeat(job_id, worker_id)\<close> with a worker id that is not blank commits
  the row with status retryable, \<open>error_code = LEASE_EXPIRED\<close> and \<open>worker_id\<close>,
  \<open>worker_heartbeat_at\<close>, \<open>lease_expires_at\<close> cleared, leaves the other rows as they
  were, and raises \<open>JobConflictError\<close>.
\<close>

theorem heartbeat_expired_lease:
  assumes "session_get db jid = Some job" and "status job = RUNNING"
    and "lease_expires_at job = None \<or> (\<exists>t. lease_expires_at job = Some t \<and> t \<le> now)"
    and "py_strip wid \<noteq> []"
  shows "\<exists>db' job'. heartbeat cfg now db jid wid prog processed = (db', Inl JobConflictError) \<and>
           session_get db' jid = Some job' \<and> status job' = RETRYABLE \<and>
           error_code job' = Some ''LEASE_EXPIRED'' \<and> worker_id job' = None \<and>
           worker_heartbeat_at job' = None \<and> lease_expires_at job' = None \<and>
           (\<forall>other. other \<noteq> jid \<longrightarrow> session_get db' other = session_get db other)"
proof -
  let ?job' = "expire_lease now job"
  have id: "job_id ?job' = jid"
    using assms(1) by (simp add: expire_lease_def session_get_Some_id)
  have upd: "update_row db ?job' = Inr (upd db ?job')"
    by (simp add: update_row_def index_conflict_def index_member_def expire_lease_def)
  have expired: "(case coerce_utc (lease_expires_at job) of None \<Rightarrow> True | Some t \<Rightarrow> t \<le> now)"
    using assms(3) by (auto simp: coerce_utc_def)
  have res: "heartbeat cfg now db jid wid prog processed = (upd db ?job', Inl JobConflictError)"
    unfolding heartbeat_def Let_def
    using assms(1,2,4) expired upd by (simp add: enforce_transition_def)
  have get: "session_get (upd db ?job') k = (if k = jid then Some ?job' else session_get db k)" for k
    using session_get_upd [of db ?job' k] id assms(1) by auto
  show ?thesis
    using res get by (simp add: expire_lease_def)
qed

theorem heartbeat_expired_lease_witness:
  "session_get [ex_running_job] ''job-1'' = Some ex_running_job \<and> status ex_running_job = RUNNING \<and>
   lease_expires_at ex_running_job = Some 50 \<and> (50::int) \<le> 100 \<and> py_strip ''w1'' \<noteq> [] \<and>
   (\<exists>db' job'. heartbeat ex_cfg 100 [ex_running_job] ''job-1'' ''w1'' None None =
       (db', Inl JobConflictError) \<and>
     session_get db' ''job-1'' = Some job' \<and> status job' = RETRYABLE \<and>
     error_code job' = Some ''LEASE_EXPIRED'' \<and> worker_id job' = None \<and>
     worker_heartbeat_at job' = None \<and> lease_expires_at job' = None)"
proof -
  have a: "session_get [ex_running_job] ''job-1'' = Some ex_running_job"
    by (simp add: session_get_def ex_running_job_def ex_pending_job_def)
  have b: "status ex_running_job = RUNNING"
    by (simp add: ex_running_job_def)
  have c: "lease_expires_at ex_running_job = None \<or>
      (\<exists>t. lease_expires_at ex_running_job = Some t \<and> t \<le> 100)"
    by (simp add: ex_running_job_def)
  have d: "py_strip ''w1'' \<noteq> []"
    by (simp add: py_strip_def py_isspace_def)
  have e: "lease_expires_at ex_running_job = Some 50"
    by (simp add: ex_running_job_def)
  show ?thesis
    using heartbeat_expired_lease [OF a b c d, of ex_cfg None None] a b d e by auto
qed

subsection \<open>heartbeat on a running job without a worker\<close>






subsection \<open>create_job and the admission mutex\<close>

text \<open>
  Claim C1 as stated is false, in two ways.  It speaks of every call to \<open>create_job\<close> with
  kind scan or hash, but the job policy is enforced before the recovery and the admission check:
  under the global dry-run flag a real-run request raises \<open>JobPolicyError\<close>; with no active
  job no row is persisted, and with an active job the error is not \<open>JobConflictError\<close>.
  And a store can hold two scan/hash jobs with status pending, running or retryable: the
  migration repair keeps the oldest running job and makes the other one retryable; the table
  satisfies the primary key and the unique index, and \<open>create_job\<close> on it raises
  \<open>JobConflictError\<close> and leaves both.
\<close>

theorem create_job_counterexample:
  "create_job ex_cfg 100 ''job-2'' [] SCAN None (Some False) = ([], Inl JobPolicyError) \<and>
   is_active_scan_hash ex_pending_job \<and>
   create_job ex_cfg 100 ''job-2'' [ex_pending_job] SCAN None (Some False) =
     ([ex_pending_job], Inl JobPolicyError) \<and>
   index_ok [ex_migrated_running, ex_migrated_retryable] \<and>
   distinct (map job_id [ex_migrated_running, ex_migrated_retryable]) \<and>
   enforce_job_policy ex_cfg SCAN True = Inr () \<and>
   create_job ex_cfg 100 ''job-2'' [ex_migrated_running, ex_migrated_retryable] SCAN None (Some True) =
     ([ex_migrated_running, ex_migrated_retryable], Inl JobConflictError) \<and>
   filter is_active_scan_hash [ex_migrated_running, ex_migrated_retryable] =
     [ex_migrated_running, ex_migrated_retryable]"
  by (simp add: create_job_def ex_cfg_def enforce_job_policy_def is_active_scan_hash_def
      ex_pending_job_def ex_migrated_running_def ex_migrated_retryable_def index_ok_def
      index_member_def requires_scan_hash_mutex_def recover_stale_jobs_in_def is_stale_def
      enforce_transition_def mark_stale_def Let_def)

lemma two_in_filter:
  assumes "a \<in> set xs" "b \<in> set xs" "a \<noteq> b" "P a" "P b"
  shows "2 \<le> length (filter P xs)"
proof -
  have "{a, b} \<subseteq> set (filter P xs)"
    using assms by simp
  then have "card {a, b} \<le> card (set (filter P xs))"
    by (intro card_mono) simp_all
  also have "\<dots> \<le> length (filter P xs)"
    by (rule card_length)
  finally show ?thesis
    using assms(3) by simp
qed

lemma at_most_one_mutex_inv:
  assumes "distinct (map job_id db)" "length (filter is_active_scan_hash db) \<le> 1"
  shows "mutex_inv db"
proof -
  have "job_id a = job_id b"
    if "a \<in> set db" "b \<in> set db" "is_active_scan_hash a" "is_active_scan_hash b" for a b
  proof (rule ccontr)
    assume "job_id a \<noteq> job_id b"
    then have "a \<noteq> b" by auto
    from two_in_filter [OF that(1,2) this that(3,4)] assms(2) show False by simp
  qed
  with assms(1) show ?thesis
    unfolding mutex_inv_def by blast
qed

lemma no_active_not_stale:
  assumes "\<not> (\<exists>j \<in> set db. is_active_scan_hash j)"
  shows "recovered now db = db"
proof -
  have "recover_row now j = j" if "j \<in> set db" for j
  proof -
    have "\<not> is_active_scan_hash j" using assms that by blast
    then have "\<not> is_stale now j"
      by (auto simp: is_stale_def is_active_scan_hash_def)
    then show ?thesis by (simp add: recover_row_def)
  qed
  then show ?thesis
    unfolding recovered_def by (simp add: map_idI)
qed

text \<open>
  Claim C1, amended: for every call to \<open>create_job\<close> with kind scan or hash that passes the
  job policy, with a new identifier, the stale-lease recovery runs first in the session (it
  never fails and does not change whether an active scan/hash job exists); if a scan/hash job
  with status pending, running or retryable exists, the call raises \<open>JobConflictError\<close> and
  the table is unchanged; otherwise the new row, with status pending, is appended to the
  table and is then the only scan/hash job in these statuses.  So the call never adds a second
  such job: a table with at most one has at most one afterwards, and the same holds of every
  coordinator operation on a table with distinct keys.
\<close>

theorem create_job_scan_hash_admission:
  assumes "k \<in> {SCAN, HASH}"
    and "enforce_job_policy cfg k (case dry of None \<Rightarrow> s_dry_run cfg | Some d \<Rightarrow> d) = Inr ()"
    and "new_id \<notin> job_id ` set db"
  shows "\<exists>sess n. recover_stale_jobs_in now db = Inr (sess, n) \<and>
           ((\<exists>j \<in> set sess. is_active_scan_hash j) = (\<exists>j \<in> set db. is_active_scan_hash j)) \<and>
           ((\<exists>j \<in> set sess. is_active_scan_hash j) \<longrightarrow>
               create_job cfg now new_id db k pl dry = (db, Inl JobConflictError)) \<and>
           (\<not> (\<exists>j \<in> set sess. is_active_scan_hash j) \<longrightarrow>
               (\<exists>job. create_job cfg now new_id db k pl dry = (db @ [job], Inr job) \<and>
                  job_id job = new_id \<and> kind job = k \<and> status job = PENDING \<and>
                  filter is_active_scan_hash (db @ [job]) = [job])) \<and>
           (length (filter is_active_scan_hash db) \<le> 1 \<longrightarrow>
               length (filter is_active_scan_hash (fst (create_job cfg now new_id db k pl dry))) \<le> 1) \<and>
           (\<forall>t op. distinct (map job_id db) \<and> length (filter is_active_scan_hash db) \<le> 1 \<longrightarrow>
               length (filter is_active_scan_hash (run_op cfg t op db)) \<le> 1)"
proof -
  let ?sess = "recovered now db"
  let ?n = "length (filter (is_stale now) db)"
  let ?eff = "case dry of None \<Rightarrow> s_dry_run cfg | Some d \<Rightarrow> d"
  let ?job = "new_job new_id k ?eff pl now"
  have rec: "recover_stale_jobs_in now db = Inr (?sess, ?n)"
    by (simp add: recover_stale_jobs_in_def recover_loop_eq)
  have iff: "(\<exists>j \<in> set ?sess. is_active_scan_hash j) = (\<exists>j \<in> set db. is_active_scan_hash j)"
    by (rule recovered_active_iff)
  have mutex: "requires_scan_hash_mutex k"
    using assms(1) by (simp add: requires_scan_hash_mutex_def)
  have conflict: "create_job cfg now new_id db k pl dry = (db, Inl JobConflictError)"
    if "\<exists>j \<in> set ?sess. is_active_scan_hash j"
    unfolding create_job_def Let_def
    using assms(2) mutex rec that by simp
  have fields: "job_id ?job = new_id" "kind ?job = k" "status ?job = PENDING"
    by (simp_all add: new_job_def)
  have active_new: "is_active_scan_hash ?job"
    using assms(1) fields by (simp add: is_active_scan_hash_def)
  have admit: "create_job cfg now new_id db k pl dry = (db @ [?job], Inr ?job) \<and>
      filter is_active_scan_hash (db @ [?job]) = [?job]"
    if none: "\<not> (\<exists>j \<in> set ?sess. is_active_scan_hash j)"
  proof -
    have none': "\<not> (\<exists>j \<in> set db. is_active_scan_hash j)"
      using none iff by simp
    have same: "?sess = db"
      using none' by (rule no_active_not_stale)
    have nomember: "\<not> index_member r" if "r \<in> set db" for r
    proof -
      have "\<not> is_active_scan_hash r" using none' that by auto
      then show ?thesis by (auto simp: index_member_def is_active_scan_hash_def)
    qed
    have ins: "insert_row db ?job = Inr (db @ [?job])"
      using assms(3) nomember
      by (auto simp: insert_row_def index_conflict_def new_job_def)
    have res: "create_job cfg now new_id db k pl dry = (db @ [?job], Inr ?job)"
      unfolding create_job_def Let_def
      using assms(2) mutex rec none same ins by (simp add: to_snapshot_def)
    have "filter is_active_scan_hash db = []"
      using none' by (simp add: filter_empty_conv)
    then have "filter is_active_scan_hash (db @ [?job]) = [?job]"
      using active_new by simp
    with res show ?thesis by simp
  qed
  have pres1: "length (filter is_active_scan_hash (fst (create_job cfg now new_id db k pl dry))) \<le> 1"
    if le: "length (filter is_active_scan_hash db) \<le> 1"
  proof (cases "\<exists>j \<in> set ?sess. is_active_scan_hash j")
    case True
    from conflict [OF True] le show ?thesis by simp
  next
    case False
    from admit [OF False] show ?thesis by simp
  qed
  have pres2: "length (filter is_active_scan_hash (run_op cfg t op db)) \<le> 1"
    if "distinct (map job_id db) \<and> length (filter is_active_scan_hash db) \<le> 1" for t op
  proof -
    have "mutex_inv db"
      using that by (simp add: at_most_one_mutex_inv)
    then have "mutex_inv (run_op cfg t op db)"
      by (rule run_op_mutex_inv)
    then show ?thesis by (rule mutex_inv_at_most_one)
  qed
  show ?thesis
    using rec iff conflict admit fields pres1 pres2 by blast
qed

theorem create_job_scan_hash_admission_witness:
  "SCAN \<in> {SCAN, HASH} \<and> enforce_job_policy ex_cfg SCAN True = Inr () \<and>
   ''job-2'' \<notin> job_id ` set [ex_pending_job] \<and> is_active_scan_hash ex_pending_job \<and>
   create_job ex_cfg 100 ''job-2'' [ex_pending_job] SCAN None None =
     ([ex_pending_job], Inl JobConflictError) \<and>
   (\<exists>job. create_job ex_cfg 100 ''job-2'' [] SCAN None None = ([job], Inr job) \<and>
      job_id job = ''job-2'' \<and> kind job = SCAN \<and> status job = PENDING \<and>
      filter is_active_scan_hash [job] = [job]) \<and>
   length (filter is_active_scan_hash [ex_pending_job]) \<le> 1 \<and>
   length (filter is_active_scan_hash
      (fst (create_job ex_cfg 100 ''job-2'' [ex_pending_job] SCAN None None))) \<le> 1 \<and>
   distinct (map job_id [ex_pending_job]) \<and>
   length (filter is_active_scan_hash
      (run_op ex_cfg 20 (ClaimPendingScanHashJob ''w1'') [ex_pending_job])) \<le> 1"
proof -
  have k: "SCAN \<in> {SCAN, HASH}" by simp
  have pol: "enforce_job_policy ex_cfg SCAN (case None of None \<Rightarrow> s_dry_run ex_cfg | Some d \<Rightarrow> d) = Inr ()"
    by (simp add: enforce_job_policy_def ex_cfg_def)
  have pol': "enforce_job_policy ex_cfg SCAN True = Inr ()"
    by (simp add: enforce_job_policy_def ex_cfg_def)
  have f1: "''job-2'' \<notin> job_id ` set [ex_pending_job]"
    by (simp add: ex_pending_job_def)
  have f2: "''job-2'' \<notin> job_id ` set []"
    by simp
  have act: "is_active_scan_hash ex_pending_job"
    by (simp add: is_active_scan_hash_def ex_pending_job_def)
  have one: "length (filter is_active_scan_hash [ex_pending_job]) \<le> 1"
    "distinct (map job_id [ex_pending_job])"
    by simp_all
  have a: "create_job ex_cfg 100 ''job-2'' [ex_pending_job] SCAN None None =
       ([ex_pending_job], Inl JobConflictError) \<and>
     length (filter is_active_scan_hash
       (fst (create_job ex_cfg 100 ''job-2'' [ex_pending_job] SCAN None None))) \<le> 1 \<and>
     length (filter is_active_scan_hash
       (run_op ex_cfg 20 (ClaimPendingScanHashJob ''w1'') [ex_pending_job])) \<le> 1"
  proof -
    from create_job_scan_hash_admission [OF k pol f1, of 100 None]
    obtain sess n where
      s1: "(\<exists>j \<in> set sess. is_active_scan_hash j) = (\<exists>j \<in> set [ex_pending_job]. is_active_scan_hash j)"
      and s2: "(\<exists>j \<in> set sess. is_active_scan_hash j) \<longrightarrow>
        create_job ex_cfg 100 ''job-2'' [ex_pending_job] SCAN None None =
          ([ex_pending_job], Inl JobConflictError)"
      and s3: "length (filter is_active_scan_hash [ex_pending_job]) \<le> 1 \<longrightarrow>
        length (filter is_active_scan_hash
          (fst (create_job ex_cfg 100 ''job-2'' [ex_pending_job] SCAN None None))) \<le> 1"
      and s4: "\<forall>t op. distinct (map job_id [ex_pending_job]) \<and>
          length (filter is_active_scan_hash [ex_pending_job]) \<le> 1 \<longrightarrow>
          length (filter is_active_scan_hash (run_op ex_cfg t op [ex_pending_job])) \<le> 1"
      by blast
    have "\<exists>j \<in> set sess. is_active_scan_hash j"
      using s1 act by simp
    with s2 have c1: "create_job ex_cfg 100 ''job-2'' [ex_pending_job] SCAN None None =
          ([ex_pending_job], Inl JobConflictError)"
      by blast
    from s3 one(1) have c2: "length (filter is_active_scan_hash
          (fst (create_job ex_cfg 100 ''job-2'' [ex_pending_job] SCAN None None))) \<le> 1"
      by blast
    from s4 one have c3: "length (filter is_active_scan_hash
          (run_op ex_cfg 20 (ClaimPendingScanHashJob ''w1'') [ex_pending_job])) \<le> 1"
      by blast
    from c1 c2 c3 show ?thesis by blast
  qed
  have b: "\<exists>job. create_job ex_cfg 100 ''job-2'' [] SCAN None None = ([job], Inr job) \<and>
      job_id job = ''job-2'' \<and> kind job = SCAN \<and> status job = PENDING \<and>
      filter is_active_scan_hash [job] = [job]"
  proof -
    from create_job_scan_hash_admission [OF k pol f2, of 100 None]
    obtain sess n where
      t1: "(\<exists>j \<in> set sess. is_active_scan_hash j) = (\<exists>j \<in> set []. is_active_scan_hash j)"
      and t2: "\<not> (\<exists>j \<in> set sess. is_active_scan_hash j) \<longrightarrow>
        (\<exists>job. create_job ex_cfg 100 ''job-2'' [] SCAN None None = ([] @ [job], Inr job) \<and>
           job_id job = ''job-2'' \<and> kind job = SCAN \<and> status job = PENDING \<and>
           filter is_active_scan_hash ([] @ [job]) = [job])"
      by blast
    have "\<not> (\<exists>j \<in> set sess. is_active_scan_hash j)"
      using t1 by simp
    with t2 have "\<exists>job. create_job ex_cfg 100 ''job-2'' [] SCAN None None = ([] @ [job], Inr job) \<and>
           job_id job = ''job-2'' \<and> kind job = SCAN \<and> status job = PENDING \<and>
           filter is_active_scan_hash ([] @ [job]) = [job]"
      by blast
    then show ?thesis
      by (simp only: append_Nil)
  qed
  show ?thesis
    using k pol' f1 act a b one by blast
qed

subsection \<open>The lease fields of the rows\<close>

text \<open>
  Claim C4 as stated is false, in two ways.  After create, claim and finish the job is completed
  and still carries the \<open>worker_id\<close> of the worker that finished it.  And an operation
  rewrites the row it works on and no other: in the table that the migration repair leaves, the
  running job has neither worker nor lease, and it is still so after \<open>cancel_job\<close> on the
  other job.
\<close>

theorem finish_job_keeps_worker_counterexample:
  "run_op ex_cfg 30 (FinishJob ''job-1'' ''w1'' True None)
     (run_op ex_cfg 20 (ClaimPendingScanHashJob ''w1'')
        (run_op ex_cfg 10 (CreateJob ''job-1'' SCAN None None) [])) = [ex_finished_job] \<and>
   status ex_finished_job = COMPLETED \<and> worker_id ex_finished_job = Some ''w1'' \<and>
   run_op ex_cfg 200 (CancelJob ''job-b'' None) [ex_migrated_running, ex_migrated_retryable] =
     [ex_migrated_running,
      ex_migrated_retryable\<lparr>status := CANCELLED, finished_at := Some 200, updated_at := 200\<rparr>] \<and>
   status ex_migrated_running = RUNNING \<and> worker_id ex_migrated_running = None \<and>
   lease_expires_at ex_migrated_running = None"
proof -
  have a: "run_op ex_cfg 10 (CreateJob ''job-1'' SCAN None None) [] = [ex_pending_job]"
    by (simp add: create_job_def ex_cfg_def enforce_job_policy_def requires_scan_hash_mutex_def
        recover_stale_jobs_in_def insert_row_def index_conflict_def new_job_def ex_pending_job_def
        to_snapshot_def Let_def)
  have b: "run_op ex_cfg 20 (ClaimPendingScanHashJob ''w1'') [ex_pending_job] =
      [ex_running_job\<lparr>lease_expires_at := Some 300000020\<rparr>]"
    by (simp add: claim_pending_scan_hash_job_def py_strip_def py_isspace_def
        recover_stale_jobs_in_def is_stale_def claim_candidate_def ex_pending_job_def
        ex_running_job_def update_row_def upd_def index_conflict_def session_get_def
        lease_delta_def timedelta_seconds_def ex_cfg_def to_snapshot_def Let_def)
  have c: "run_op ex_cfg 30 (FinishJob ''job-1'' ''w1'' True None)
      [ex_running_job\<lparr>lease_expires_at := Some 300000020\<rparr>] = [ex_finished_job]"
    by (simp add: finish_job_def py_strip_def py_isspace_def session_get_def ex_running_job_def
        ex_pending_job_def enforce_transition_def update_row_def upd_def index_conflict_def
        index_member_def ex_finished_job_def to_snapshot_def Let_def)
  have d: "run_op ex_cfg 200 (CancelJob ''job-b'' None) [ex_migrated_running, ex_migrated_retryable] =
     [ex_migrated_running,
      ex_migrated_retryable\<lparr>status := CANCELLED, finished_at := Some 200, updated_at := 200\<rparr>]"
    by (simp add: cancel_job_def session_get_def ex_migrated_running_def ex_migrated_retryable_def
        enforce_transition_def cancelled_row_def update_row_def upd_def index_conflict_def
        index_member_def to_snapshot_def Let_def)
  show ?thesis
    unfolding a b c d by (simp add: ex_finished_job_def ex_migrated_running_def)
qed

lemma lease_inv_upd:
  assumes "\<forall>j \<in> set db. lease_inv j" "lease_inv j'"
  shows "\<forall>j \<in> set (upd db j'). lease_inv j"
  using assms by (auto simp: upd_def)

lemma lease_inv_recovered:
  assumes "\<forall>j \<in> set db. lease_inv j"
  shows "\<forall>j \<in> set (recovered now db). lease_inv j"
proof -
  have "lease_inv (recover_row now j)" if "lease_inv j" for j
    using that by (simp add: recover_row_def mark_stale_def lease_inv_def)
  with assms show ?thesis
    by (simp add: recovered_def)
qed

lemma lease_inv_append:
  assumes "\<forall>j \<in> set db. lease_inv j" "fresh_row_ok db j"
  shows "\<forall>r \<in> set (db @ [j]). lease_inv r"
  using assms by (auto simp: fresh_row_ok_def lease_inv_def)

lemma run_op_lease_inv:
  assumes "\<forall>j \<in> set db. lease_inv j"
  shows "\<forall>j \<in> set (run_op cfg now op db). lease_inv j"
proof (cases op)
  case (CreateJob new_id k pl dry)
  show ?thesis
    unfolding CreateJob run_op.simps
  proof (rule create_job_table)
    show "\<forall>j \<in> set db. lease_inv j" by fact
  next
    fix j :: Job
    assume "fresh_row_ok (recovered now db) j"
    then show "\<forall>r \<in> set (recovered now db @ [j]). lease_inv r"
      using lease_inv_append lease_inv_recovered [OF assms] by blast
  next
    fix j :: Job
    assume "fresh_row_ok db j"
    then show "\<forall>r \<in> set (db @ [j]). lease_inv r"
      using lease_inv_append assms by blast
  qed
next
  case (ClaimPendingScanHashJob wid)
  show ?thesis
    unfolding ClaimPendingScanHashJob run_op.simps
  proof (rule claim_table)
    show "\<forall>j \<in> set db. lease_inv j" by fact
  next
    fix c j' :: Job
    assume "status j' = RUNNING" "lease_expires_at j' \<noteq> None" "worker_id j' \<noteq> None"
    then have "lease_inv j'" by (simp add: lease_inv_def)
    then show "\<forall>j \<in> set (upd (recovered now db) j'). lease_inv j"
      using lease_inv_upd lease_inv_recovered [OF assms] by blast
  qed
next
  case (Heartbeat jid wid prog processed)
  show ?thesis
    unfolding Heartbeat run_op.simps
  proof (rule heartbeat_table)
    show "\<forall>j \<in> set db. lease_inv j" by fact
  next
    fix job :: Job
    have "lease_inv (expire_lease now job)"
      by (simp add: lease_inv_def expire_lease_def)
    then show "\<forall>j \<in> set (upd db (expire_lease now job)). lease_inv j"
      using lease_inv_upd assms by blast
  next
    fix job job2 :: Job
    assume "status job2 = RUNNING"
    then have "lease_inv (refresh_lease cfg now (py_strip wid) job2)"
      by (simp add: lease_inv_def refresh_lease_def)
    then show "\<forall>j \<in> set (upd db (refresh_lease cfg now (py_strip wid) job2)). lease_inv j"
      using lease_inv_upd assms by blast
  qed
next
  case (FinishJob jid wid success msg)
  show ?thesis
    unfolding FinishJob run_op.simps
  proof (rule finish_job_table)
    show "\<forall>j \<in> set db. lease_inv j" by fact
  next
    fix job j' :: Job
    assume "status j' \<in> {COMPLETED, FAILED}" "lease_expires_at j' = None"
    then have "lease_inv j'" by (auto simp: lease_inv_def)
    then show "\<forall>j \<in> set (upd db j'). lease_inv j"
      using lease_inv_upd assms by blast
  qed
next
  case (ResetRetryableJob jid)
  show ?thesis
    unfolding ResetRetryableJob run_op.simps
  proof (rule reset_retryable_job_table)
    show "\<forall>j \<in> set db. lease_inv j" by fact
  next
    fix job j' :: Job
    assume "status j' = PENDING" "lease_expires_at j' = None" "worker_id j' = None"
    then have "lease_inv j'" by (simp add: lease_inv_def)
    then show "\<forall>j \<in> set (upd db j'). lease_inv j"
      using lease_inv_upd assms by blast
  qed
next
  case (CancelJob jid msg)
  show ?thesis
    unfolding CancelJob run_op.simps
  proof (rule cancel_job_table)
    show "\<forall>j \<in> set db. lease_inv j" by fact
  next
    fix job j' :: Job
    assume "status j' = CANCELLED" "lease_expires_at j' = None"
    then have "lease_inv j'" by (simp add: lease_inv_def)
    then show "\<forall>j \<in> set (upd db j'). lease_inv j"
      using lease_inv_upd assms by blast
  qed
next
  case RecoverStaleJobs
  show ?thesis
    unfolding RecoverStaleJobs run_op.simps recover_stale_jobs_table
    using assms by (rule lease_inv_recovered)
qed


lemma lease_fields_after_upd:
  assumes "\<forall>r \<in> set t. r \<in> set db \<or> lease_fields_after db r" "lease_fields_after db j'"
  shows "\<forall>r \<in> set (upd t j'). r \<in> set db \<or> lease_fields_after db r"
  using assms by (auto simp: upd_def)

lemma lease_fields_after_recovered:
  "\<forall>r \<in> set (recovered now db). r \<in> set db \<or> lease_fields_after db r"
proof
  fix r
  assume "r \<in> set (recovered now db)"
  then have "r \<in> recover_row now ` set db"
    by (simp add: recovered_def)
  then obtain j where j: "j \<in> set db" "r = recover_row now j"
    by blast
  show "r \<in> set db \<or> lease_fields_after db r"
  proof (cases "is_stale now j")
    case True
    then have "r = mark_stale now j"
      using j(2) by (simp add: recover_row_def)
    then have "lease_fields_after db r"
      by (simp add: lease_fields_after_def mark_stale_def)
    then show ?thesis by simp
  next
    case False
    then have "r = j"
      using j(2) by (simp add: recover_row_def)
    with j(1) show ?thesis by simp
  qed
qed

lemma lease_fields_after_append:
  assumes "\<forall>r \<in> set t. r \<in> set db \<or> lease_fields_after db r" "fresh_row_ok t j"
  shows "\<forall>r \<in> set (t @ [j]). r \<in> set db \<or> lease_fields_after db r"
proof -
  have "lease_fields_after db j"
    using assms(2) by (simp add: fresh_row_ok_def lease_fields_after_def)
  with assms(1) show ?thesis by auto
qed

lemma run_op_lease_fields_after:
  "\<forall>r \<in> set (run_op cfg now op db). r \<in> set db \<or> lease_fields_after db r"
proof -
  have start: "\<forall>r \<in> set db. r \<in> set db \<or> lease_fields_after db r"
    by simp
  show ?thesis
  proof (cases op)
    case (CreateJob new_id k pl dry)
    show ?thesis
      unfolding CreateJob run_op.simps
    proof (rule create_job_table)
      show "\<forall>r \<in> set db. r \<in> set db \<or> lease_fields_after db r" by (rule start)
    next
      fix j :: Job
      assume "fresh_row_ok (recovered now db) j"
      then show "\<forall>r \<in> set (recovered now db @ [j]). r \<in> set db \<or> lease_fields_after db r"
        by (rule lease_fields_after_append [OF lease_fields_after_recovered])
    next
      fix j :: Job
      assume "fresh_row_ok db j"
      then show "\<forall>r \<in> set (db @ [j]). r \<in> set db \<or> lease_fields_after db r"
        by (rule lease_fields_after_append [OF start])
    qed
  next
    case (ClaimPendingScanHashJob wid)
    show ?thesis
      unfolding ClaimPendingScanHashJob run_op.simps
    proof (rule claim_table)
      show "\<forall>r \<in> set db. r \<in> set db \<or> lease_fields_after db r" by (rule start)
    next
      fix c j' :: Job
      assume "status j' = RUNNING" "lease_expires_at j' \<noteq> None" "worker_id j' \<noteq> None"
      then have "lease_fields_after db j'"
        by (simp add: lease_fields_after_def)
      then show "\<forall>r \<in> set (upd (recovered now db) j'). r \<in> set db \<or> lease_fields_after db r"
        by (rule lease_fields_after_upd [OF lease_fields_after_recovered])
    qed
  next
    case (Heartbeat jid wid prog processed)
    show ?thesis
      unfolding Heartbeat run_op.simps
    proof (rule heartbeat_table)
      show "\<forall>r \<in> set db. r \<in> set db \<or> lease_fields_after db r" by (rule start)
    next
      fix job :: Job
      have "lease_fields_after db (expire_lease now job)"
        by (simp add: lease_fields_after_def expire_lease_def)
      then show "\<forall>r \<in> set (upd db (expire_lease now job)). r \<in> set db \<or> lease_fields_after db r"
        by (rule lease_fields_after_upd [OF start])
    next
      fix job job2 :: Job
      assume "status job2 = RUNNING"
      then have "lease_fields_after db (refresh_lease cfg now (py_strip wid) job2)"
        by (simp add: lease_fields_after_def refresh_lease_def)
      then show "\<forall>r \<in> set (upd db (refresh_lease cfg now (py_strip wid) job2)).
          r \<in> set db \<or> lease_fields_after db r"
        by (rule lease_fields_after_upd [OF start])
    qed
  next
    case (FinishJob jid wid success msg)
    show ?thesis
      unfolding FinishJob run_op.simps
    proof (rule finish_job_table)
      show "\<forall>r \<in> set db. r \<in> set db \<or> lease_fields_after db r" by (rule start)
    next
      fix job j' :: Job
      assume g: "session_get db jid = Some job" and "status job = RUNNING"
        and i: "job_id j' = job_id job" and "kind j' = kind job"
        and st: "status j' \<in> {COMPLETED, FAILED}"
        and l: "lease_expires_at j' = None" and w: "worker_id j' = worker_id job"
      have "session_get db (job_id j') = Some job"
        using g i session_get_Some_id [OF g] by simp
      then have "lease_fields_after db j'"
        using st l w by (auto simp: lease_fields_after_def)
      then show "\<forall>r \<in> set (upd db j'). r \<in> set db \<or> lease_fields_after db r"
        by (rule lease_fields_after_upd [OF start])
    qed
  next
    case (ResetRetryableJob jid)
    show ?thesis
      unfolding ResetRetryableJob run_op.simps
    proof (rule reset_retryable_job_table)
      show "\<forall>r \<in> set db. r \<in> set db \<or> lease_fields_after db r" by (rule start)
    next
      fix job j' :: Job
      assume "status j' = PENDING" "lease_expires_at j' = None" "worker_id j' = None"
      then have "lease_fields_after db j'"
        by (simp add: lease_fields_after_def)
      then show "\<forall>r \<in> set (upd db j'). r \<in> set db \<or> lease_fields_after db r"
        by (rule lease_fields_after_upd [OF start])
    qed
  next
    case (CancelJob jid msg)
    show ?thesis
      unfolding CancelJob run_op.simps
    proof (rule cancel_job_table)
      show "\<forall>r \<in> set db. r \<in> set db \<or> lease_fields_after db r" by (rule start)
    next
      fix job j' :: Job
      assume g: "session_get db jid = Some job"
        and i: "job_id j' = job_id job" and "kind j' = kind job"
        and st: "status j' = CANCELLED"
        and l: "lease_expires_at j' = None" and w: "worker_id j' = worker_id job"
      have "session_get db (job_id j') = Some job"
        using g i session_get_Some_id [OF g] by simp
      then have "lease_fields_after db j'"
        using st l w by (auto simp: lease_fields_after_def)
      then show "\<forall>r \<in> set (upd db j'). r \<in> set db \<or> lease_fields_after db r"
        by (rule lease_fields_after_upd [OF start])
    qed
  next
    case RecoverStaleJobs
    show ?thesis
      unfolding RecoverStaleJobs run_op.simps recover_stale_jobs_table
      by (rule lease_fields_after_recovered)
  qed
qed

text \<open>
  Claim C4, amended: after every coordinator operation (create_job,
  claim_pending_scan_hash_job, heartbeat, finish_job, reset_retryable_job, cancel_job,
  recover_stale_jobs), on any table, every row is either a row of the table before the
  operation, unchanged, or a row the operation has written, and such a row has: if it is
  running, a \<open>worker_id\<close> and a \<open>lease_expires_at\<close>; if it is pending or retryable,
  \<open>worker_id = null\<close> and \<open>lease_expires_at = null\<close>; if it is completed, failed or
  cancelled, \<open>lease_expires_at = null\<close> and the \<open>worker_id\<close> that the job had before the
  operation.  Hence a table in which every running job has a worker and a lease, no other job
  has a lease and no pending or retryable job has a worker is still so after the operation.
\<close>

theorem coordinator_lease_fields:
  "(\<forall>r \<in> set (run_op cfg now op db). r \<in> set db \<or> lease_fields_after db r) \<and>
   ((\<forall>j \<in> set db. lease_inv j) \<longrightarrow> (\<forall>j \<in> set (run_op cfg now op db). lease_inv j))"
  using run_op_lease_fields_after run_op_lease_inv by blast

theorem coordinator_lease_fields_witness:
  "list_all (\<lambda>r. r \<in> set [ex_running_job] \<or> lease_fields_after [ex_running_job] r)
     (run_op ex_cfg 30 (FinishJob ''job-1'' ''w1'' True None) [ex_running_job]) \<and>
   run_op ex_cfg 30 (FinishJob ''job-1'' ''w1'' True None) [ex_running_job] = [ex_finished_job] \<and>
   ex_finished_job \<notin> set [ex_running_job] \<and>
   lease_inv ex_running_job \<and>
   list_all lease_inv (run_op ex_cfg 30 (FinishJob ''job-1'' ''w1'' True None) [ex_running_job])"
proof -
  have a: "lease_inv ex_running_job"
    by (simp add: lease_inv_def ex_running_job_def)
  have b: "run_op ex_cfg 30 (FinishJob ''job-1'' ''w1'' True None) [ex_running_job] = [ex_finished_job]"
    by (simp add: finish_job_def py_strip_def py_isspace_def session_get_def ex_running_job_def
        ex_pending_job_def enforce_transition_def update_row_def upd_def index_conflict_def
        index_member_def ex_finished_job_def to_snapshot_def Let_def)
  have c: "ex_finished_job \<notin> set [ex_running_job]"
    by (simp add: ex_finished_job_def ex_running_job_def ex_pending_job_def)
  have d: "list_all (\<lambda>r. r \<in> set [ex_running_job] \<or> lease_fields_after [ex_running_job] r)
      (run_op ex_cfg 30 (FinishJob ''job-1'' ''w1'' True None) [ex_running_job]) \<and>
    list_all lease_inv (run_op ex_cfg 30 (FinishJob ''job-1'' ''w1'' True None) [ex_running_job])"
    using coordinator_lease_fields [of ex_cfg 30 "FinishJob ''job-1'' ''w1'' True None" "[ex_running_job]"] a
    by (simp add: list_all_iff)
  show ?thesis
    using a b c d by blast
qed

section \<open>Properties of the WAL maintenance scheduler\<close>

lemma first_desc_Some:
  "xs \<noteq> [] \<Longrightarrow> \<exists>m. first_desc key xs = Some m"
  by (cases xs) (auto split: option.splits if_splits)

lemma first_desc_max:
  "first_desc key xs = Some m \<Longrightarrow> m \<in> set xs \<and> (\<forall>x \<in> set xs. key x \<le> key m)"
proof (induction xs arbitrary: m)
  case Nil
  then show ?case by simp
next
  case (Cons x xs)
  show ?case
  proof (cases "first_desc key xs")
    case None
    then have "xs = []" using first_desc_Some [of xs key] by auto
    with Cons.prems None show ?thesis by simp
  next
    case (Some m')
    from Cons.IH [OF Some] have ih: "m' \<in> set xs" "\<forall>y \<in> set xs. key y \<le> key m'" by auto
    show ?thesis
    proof (cases "key m' < key x")
      case True
      with Cons.prems Some have "m = x" by simp
      with ih True show ?thesis by (auto intro: order.trans less_imp_le)
    next
      case False
      with Cons.prems Some have "m = m'" by simp
      with ih False show ?thesis by auto
    qed
  qed
qed

text \<open>
  Claim C8: when the table holds a row with status pending, running or retryable and the mode
  passes the normalisation and the truncate policy, \<open>request_checkpoint\<close> returns the
  snapshot of the active row that is greatest in (created_at, id), that is, a snapshot each of
  whose fields has the value of the same field of that row, whatever the mode and whatever
  \<open>force\<close>, and the table is unchanged.
\<close>

theorem request_checkpoint_coalesces:
  assumes "normalize_mode cfg mode = Inr m"
    and "\<not> (m = TRUNCATE \<and> \<not> wal_checkpoint_allow_truncate cfg)"
    and "\<exists>r \<in> set db. wal_is_active r"
  shows "\<exists>r. request_checkpoint cfg now db mode reason requested_by force =
              (db, Inr \<lparr>ws_id = w_id r,
                        ws_requested_mode = w_requested_mode r,
                        ws_status = w_status r,
                        ws_requested_by = w_requested_by r,
                        ws_reason = w_reason r,
                        ws_execute_after = w_execute_after r,
                        ws_retry_count = w_retry_count r,
                        ws_retry_after = w_retry_after r,
                        ws_worker_id = w_worker_id r,
                        ws_worker_heartbeat_at = w_worker_heartbeat_at r,
                        ws_lease_expires_at = w_lease_expires_at r,
                        ws_checkpoint_busy = w_checkpoint_busy r,
                        ws_checkpoint_log_frames = w_checkpoint_log_frames r,
                        ws_checkpointed_frames = w_checkpointed_frames r,
                        ws_error_code = w_error_code r,
                        ws_error_message = w_error_message r,
                        ws_created_at = w_created_at r,
                        ws_updated_at = w_updated_at r,
                        ws_started_at = w_started_at r,
                        ws_finished_at = w_finished_at r\<rparr>) \<and>
           r \<in> set db \<and> wal_is_active r \<and>
           (\<forall>r' \<in> set db. wal_is_active r' \<longrightarrow>
               (w_created_at r', w_id r') \<le> (w_created_at r, w_id r))"
proof -
  let ?key = "\<lambda>r. (w_created_at r, w_id r)"
  have "filter wal_is_active db \<noteq> []"
    using assms(3) by (simp add: filter_empty_conv)
  then obtain r where r: "first_desc ?key (filter wal_is_active db) = Some r"
    using first_desc_Some by blast
  from first_desc_max [OF r]
  have mem: "r \<in> set db" "wal_is_active r"
    and mx: "\<forall>x \<in> set (filter wal_is_active db). ?key x \<le> ?key r"
    by auto
  have res: "request_checkpoint cfg now db mode reason requested_by force = (db, Inr (wal_to_snapshot r))"
    unfolding request_checkpoint_def using assms(1,2) r by auto
  have all: "\<forall>r' \<in> set db. wal_is_active r' \<longrightarrow> ?key r' \<le> ?key r"
    using mx by simp
  show ?thesis
    using res mem all unfolding wal_to_snapshot_def by blast
qed

theorem request_checkpoint_coalesces_witness:
  "normalize_mode ex_wal_cfg (Some '' Passive '') = Inr PASSIVE \<and>
   wal_is_active (ex_wal_row 2 50 W_RETRYABLE) \<and>
   request_checkpoint ex_wal_cfg 100
      [ex_wal_row 1 50 W_PENDING, ex_wal_row 2 50 W_RETRYABLE, ex_wal_row 3 60 W_COMPLETED]
      (Some '' Passive '') None None True =
     ([ex_wal_row 1 50 W_PENDING, ex_wal_row 2 50 W_RETRYABLE, ex_wal_row 3 60 W_COMPLETED],
      Inr \<lparr>ws_id = 2, ws_requested_mode = RESTART, ws_status = W_RETRYABLE,
           ws_requested_by = Some ''api'', ws_reason = None, ws_execute_after = 50,
           ws_retry_count = 0, ws_retry_after = Some 50, ws_worker_id = None,
           ws_worker_heartbeat_at = None, ws_lease_expires_at = None, ws_checkpoint_busy = None,
           ws_checkpoint_log_frames = None, ws_checkpointed_frames = None, ws_error_code = None,
           ws_error_message = None, ws_created_at = 50, ws_updated_at = 50,
           ws_started_at = None, ws_finished_at = None\<rparr>)"
proof -
  let ?db = "[ex_wal_row 1 50 W_PENDING, ex_wal_row 2 50 W_RETRYABLE, ex_wal_row 3 60 W_COMPLETED]"
  let ?snap = "\<lambda>r. \<lparr>ws_id = w_id r,
                        ws_requested_mode = w_requested_mode r,
                        ws_status = w_status r,
                        ws_requested_by = w_requested_by r,
                        ws_reason = w_reason r,
                        ws_execute_after = w_execute_after r,
                        ws_retry_count = w_retry_count r,
                        ws_retry_after = w_retry_after r,
                        ws_worker_id = w_worker_id r,
                        ws_worker_heartbeat_at = w_worker_heartbeat_at r,
                        ws_lease_expires_at = w_lease_expires_at r,
                        ws_checkpoint_busy = w_checkpoint_busy r,
                        ws_checkpoint_log_frames = w_checkpoint_log_frames r,
                        ws_checkpointed_frames = w_checkpointed_frames r,
                        ws_error_code = w_error_code r,
                        ws_error_message = w_error_message r,
                        ws_created_at = w_created_at r,
                        ws_updated_at = w_updated_at r,
                        ws_started_at = w_started_at r,
                        ws_finished_at = w_finished_at r\<rparr>"
  have a: "normalize_mode ex_wal_cfg (Some '' Passive '') = Inr PASSIVE"
    by code_simp
  have b: "\<not> (PASSIVE = TRUNCATE \<and> \<not> wal_checkpoint_allow_truncate ex_wal_cfg)"
    by simp
  have act: "wal_is_active (ex_wal_row 2 50 W_RETRYABLE)" "wal_is_active (ex_wal_row 1 50 W_PENDING)"
    "\<not> wal_is_active (ex_wal_row 3 60 W_COMPLETED)"
    by (simp_all add: wal_is_active_def ex_wal_row_def)
  have c: "\<exists>r \<in> set ?db. wal_is_active r"
    using act by simp
  obtain r where r: "request_checkpoint ex_wal_cfg 100 ?db (Some '' Passive '') None None True =
       (?db, Inr (?snap r))" "r \<in> set ?db" "wal_is_active r"
      "\<forall>r' \<in> set ?db. wal_is_active r' \<longrightarrow> (w_created_at r', w_id r') \<le> (w_created_at r, w_id r)"
    using request_checkpoint_coalesces [OF a b c, of 100 None None True] by blast
  have "r = ex_wal_row 2 50 W_RETRYABLE"
    using r(2,3,4) act by (auto simp: ex_wal_row_def less_eq_prod_def)
  then show ?thesis
    using r(1) a act(1) by (simp add: ex_wal_row_def)
qed

section \<open>Properties of the migrations\<close>

subsection \<open>Rows in key order\<close>

lemma sql_lower_char_unfold:
  "sql_lower_char c =
     (if 65 \<le> (of_char c :: nat) \<and> (of_char c :: nat) \<le> 90
      then char_of ((of_char c :: nat) + 32) else c)"
  by (simp only: sql_lower_char_def Let_def)

lemma sql_lower_char_idem: "sql_lower_char (sql_lower_char c) = sql_lower_char c"
proof (cases "65 \<le> (of_char c :: nat) \<and> (of_char c :: nat) \<le> 90")
  case True
  have "(of_char (char_of (of_char c + 32 :: nat)) :: nat) = (of_char c + 32) mod 256"
    by (rule of_char_of)
  also have "\<dots> = of_char c + 32"
    using True by simp
  finally have e: "(of_char (char_of (of_char c + 32 :: nat)) :: nat) = of_char c + 32" .
  have l: "sql_lower_char c = char_of (of_char c + 32 :: nat)"
    by (simp only: sql_lower_char_unfold [of c] if_P [OF True])
  have n: "\<not> (65 \<le> (of_char (sql_lower_char c) :: nat) \<and> (of_char (sql_lower_char c) :: nat) \<le> 90)"
    unfolding l e using True by linarith
  show ?thesis
    by (simp only: sql_lower_char_unfold [of "sql_lower_char c"] if_not_P [OF n])
next
  case False
  have "sql_lower_char c = c"
    by (simp only: sql_lower_char_unfold [of c] if_not_P [OF False])
  then show ?thesis by simp
qed

lemma sql_lower_idem: "sql_lower (sql_lower s) = sql_lower s"
  by (simp add: sql_lower_def sql_lower_char_idem)

lemma sql_lower_consts:
  "sql_lower ''retryable'' = ''retryable''"
  "sql_lower ''running'' = ''running''"
  "sql_lower ''pending'' = ''pending''"
  by code_simp+

text \<open>all but the first, for an injective key\<close>

lemma rows_after_first_set:
  assumes "distinct xs" "inj_on key (set xs)" "m \<in> set xs" "\<forall>x \<in> set xs. key m \<le> key x"
  shows "set (rows_after_first key xs) = set xs - {m}"
proof -
  have ne: "sort_key key xs \<noteq> []"
    using assms(3) by (metis empty_iff empty_set set_sort)
  then obtain h rest where hr: "sort_key key xs = h # rest"
    by (cases "sort_key key xs") auto
  have srt: "sorted (map key (h # rest))"
    using sorted_sort_key [of key xs] hr by simp
  have st: "set (h # rest) = set xs"
    using set_sort [of key xs] hr by simp
  have ds: "distinct (h # rest)"
    using distinct_sort [of key xs] assms(1) hr by simp
  have "h \<in> set xs" using st by auto
  have "key h \<le> key m"
    using srt st assms(3) by (cases "m = h") auto
  moreover have "key m \<le> key h"
    using assms(4) \<open>h \<in> set xs\<close> by blast
  ultimately have "key h = key m" by simp
  then have "h = m"
    using assms(2,3) \<open>h \<in> set xs\<close> by (simp add: inj_on_def)
  have "set rest = set xs - {h}"
    using st ds by auto
  then show ?thesis
    using hr \<open>h = m\<close> by (simp add: rows_after_first_def)
qed

lemma rows_after_first_short:
  "length xs \<le> 1 \<Longrightarrow> rows_after_first key xs = []"
  by (simp add: rows_after_first_def)

lemma min_exists:
  fixes key :: "'a \<Rightarrow> 'k::linorder"
  assumes "xs \<noteq> []"
  shows "\<exists>m \<in> set xs. \<forall>x \<in> set xs. key m \<le> key x"
  using assms
proof (induction xs)
  case Nil
  then show ?case by simp
next
  case (Cons a xs)
  show ?case
  proof (cases "xs = []")
    case True
    then show ?thesis by simp
  next
    case False
    with Cons.IH obtain m where m: "m \<in> set xs" "\<forall>x \<in> set xs. key m \<le> key x"
      by blast
    show ?thesis
    proof (cases "key a \<le> key m")
      case True
      with m have "\<forall>x \<in> set (a # xs). key a \<le> key x"
        by (auto intro: order.trans)
      then show ?thesis by (intro bexI [of _ a]) simp_all
    next
      case False
      with m have "\<forall>x \<in> set (a # xs). key m \<le> key x"
        by auto
      with m(1) show ?thesis by (intro bexI [of _ m]) simp_all
    qed
  qed
qed

lemma is_first_unique:
  assumes "inj_on key (set rows)" "is_first sel key rows a" "is_first sel key rows b"
    "a \<in> set rows" "b \<in> set rows"
  shows "a = b"
proof -
  have "key a \<le> key b" "key b \<le> key a"
    using assms(2,3,4,5) by (auto simp: is_first_def)
  then have "key a = key b" by simp
  with assms(1,4,5) show ?thesis by (simp add: inj_on_def)
qed

lemma update_all_but_first:
  assumes d: "distinct (map r_id rows)" and inj: "inj_on key (set rows)"
  shows "update_where_id_in (map r_id (rows_after_first key (filter sel rows))) fix rows =
         map (\<lambda>r. if sel r \<and> \<not> is_first sel key rows r then fix r else r) rows"
proof -
  have dr: "distinct rows"
    using d by (rule distinct_map [THEN iffD1, THEN conjunct1])
  have injid: "inj_on r_id (set rows)"
    using d by (simp add: distinct_map)
  let ?sel = "filter sel rows"
  let ?raf = "rows_after_first key ?sel"
  have sub: "set ?raf \<subseteq> set rows"
  proof -
    have "set ?raf \<subseteq> set (sort_key key ?sel)"
      unfolding rows_after_first_def by (rule set_drop_subset)
    then show ?thesis by auto
  qed
  have mem: "(r \<in> set ?raf) = (sel r \<and> \<not> is_first sel key rows r)" if r: "r \<in> set rows" for r
  proof (cases "?sel = []")
    case True
    then have "\<not> sel r" using r by (simp add: filter_empty_conv)
    moreover have "?raf = []" using True by (simp add: rows_after_first_def)
    ultimately show ?thesis by simp
  next
    case False
    obtain m where m: "m \<in> set ?sel" "\<forall>x \<in> set ?sel. key m \<le> key x"
      using min_exists [OF False, of key] by blast
    have fm: "is_first sel key rows m"
      using m by (auto simp: is_first_def)
    have "set ?raf = set ?sel - {m}"
    proof (rule rows_after_first_set)
      show "distinct ?sel" using dr by simp
      show "inj_on key (set ?sel)" using inj by (rule inj_on_subset) auto
      show "m \<in> set ?sel" by (rule m(1))
      show "\<forall>x \<in> set ?sel. key m \<le> key x" by (rule m(2))
    qed
    then have a: "(r \<in> set ?raf) = (sel r \<and> r \<noteq> m)"
      using r by auto
    have b: "(r = m) = is_first sel key rows r" if "sel r"
    proof
      assume "r = m" with fm show "is_first sel key rows r" by simp
    next
      assume "is_first sel key rows r"
      then show "r = m"
        using is_first_unique [OF inj _ fm r] m(1) by auto
    qed
    show ?thesis
      using a b by auto
  qed
  have idmem: "(r_id r \<in> set (map r_id ?raf)) = (r \<in> set ?raf)" if r: "r \<in> set rows" for r
  proof
    assume "r_id r \<in> set (map r_id ?raf)"
    then obtain l where l: "l \<in> set ?raf" "r_id l = r_id r" by auto
    then have "l \<in> set rows" using sub by blast
    with injid r l(2) have "l = r" by (simp add: inj_on_def)
    with l(1) show "r \<in> set ?raf" by simp
  next
    assume "r \<in> set ?raf" then show "r_id r \<in> set (map r_id ?raf)" by simp
  qed
  show ?thesis
    unfolding update_where_id_in_def
    by (rule map_cong [OF refl]) (simp only: idmem mem)
qed

subsection \<open>Rows under the repairs\<close>

lemma same_job_reads:
  assumes "same_job r0 r"
  shows "is_running_scan_hash r = is_running_scan_hash r0"
    and "is_pending_or_running_scan_hash r = is_pending_or_running_scan_hash r0"
    and "created_id r = created_id r0"
    and "status_rank r = status_rank r0"
  using assms
  by (simp_all add: same_job_def is_running_scan_hash_def is_pending_or_running_scan_hash_def
      created_id_def status_rank_def)

lemma list_all2_right_mem:
  "list_all2 R xs ys \<Longrightarrow> y \<in> set ys \<Longrightarrow> \<exists>x \<in> set xs. R x y"
  by (induction rule: list_all2_induct) auto

lemma list_all2_left_mem:
  "list_all2 R xs ys \<Longrightarrow> x \<in> set xs \<Longrightarrow> \<exists>y \<in> set ys. R x y"
  by (induction rule: list_all2_induct) auto

lemma same_job_oldest:
  assumes all: "list_all2 same_job rows0 rows" and sj: "same_job r0 r"
  shows "oldest_running rows r = oldest_running rows0 r0"
proof -
  have a: "(\<forall>x \<in> set rows. is_running_scan_hash x \<longrightarrow> k \<le> created_id x) =
           (\<forall>x \<in> set rows0. is_running_scan_hash x \<longrightarrow> k \<le> created_id x)" for k
  proof
    assume l: "\<forall>x \<in> set rows. is_running_scan_hash x \<longrightarrow> k \<le> created_id x"
    show "\<forall>x \<in> set rows0. is_running_scan_hash x \<longrightarrow> k \<le> created_id x"
    proof (intro ballI impI)
      fix x0 assume x0: "x0 \<in> set rows0" "is_running_scan_hash x0"
      obtain x where x: "x \<in> set rows" "same_job x0 x"
        using list_all2_left_mem [OF all x0(1)] by blast
      then show "k \<le> created_id x0"
        using l x0(2) same_job_reads(1,3) [OF x(2)] by auto
    qed
  next
    assume l: "\<forall>x \<in> set rows0. is_running_scan_hash x \<longrightarrow> k \<le> created_id x"
    show "\<forall>x \<in> set rows. is_running_scan_hash x \<longrightarrow> k \<le> created_id x"
    proof (intro ballI impI)
      fix x assume x: "x \<in> set rows" "is_running_scan_hash x"
      obtain x0 where x0: "x0 \<in> set rows0" "same_job x0 x"
        using list_all2_right_mem [OF all x(1)] by blast
      then show "k \<le> created_id x"
        using l x(2) same_job_reads(1,3) [OF x0(2)] by auto
    qed
  qed
  show ?thesis
    unfolding oldest_running_def is_first_def
    using a [of "created_id r0"] same_job_reads(1,3) [OF sj] by simp
qed

lemma nz_fields:
  "r_id (nz r) = r_id r"
  "r_created_at (nz r) = r_created_at r"
  "r_kind (nz r) = sql_lower (r_kind r)"
  "r_status (nz r) = sql_lower (r_status r)"
  by (auto simp: nz_def)

lemma nz_lowercase: "lowercase_row (nz r)"
  by (simp add: lowercase_row_def nz_fields sql_lower_idem)

lemma nz_same_job: "same_job r0 r \<Longrightarrow> same_job r0 (nz r)"
  by (simp add: same_job_def nz_fields sql_lower_idem)

lemma nz_lowercase_id: "lowercase_row r \<Longrightarrow> nz r = r"
  by (simp add: nz_def lowercase_row_def)

lemma normalize_map: "normalize_job_enum_values rows = map nz rows"
  by (simp add: normalize_job_enum_values_def nz_def)

lemma recovery_row_fields:
  "r_id (mutex_recovery_row now r) = r_id r"
  "r_created_at (mutex_recovery_row now r) = r_created_at r"
  "r_kind (mutex_recovery_row now r) = r_kind r"
  "r_status (mutex_recovery_row now r) = ''retryable''"
  "r_id (active_recovery_row now r) = r_id r"
  "r_created_at (active_recovery_row now r) = r_created_at r"
  "r_kind (active_recovery_row now r) = r_kind r"
  "r_status (active_recovery_row now r) = ''retryable''"
  by (simp_all add: mutex_recovery_row_def active_recovery_row_def)

lemma mutex_recovery_row_recovered: "mutex_recovered (mutex_recovery_row now r)"
  by (simp add: mutex_recovered_def mutex_recovery_row_def)

lemma retryable_not_active:
  "r_status r = ''retryable'' \<Longrightarrow> \<not> is_pending_or_running_scan_hash r"
  "r_status r = ''retryable'' \<Longrightarrow> \<not> is_running_scan_hash r"
  by (simp_all add: is_pending_or_running_scan_hash_def is_running_scan_hash_def sql_lower_consts)

lemma retryable_lowercase:
  "lowercase_row r \<Longrightarrow> lowercase_row (mutex_recovery_row now r)"
  "lowercase_row r \<Longrightarrow> lowercase_row (active_recovery_row now r)"
  by (simp_all add: lowercase_row_def recovery_row_fields sql_lower_consts)

lemma running_is_active: "is_running_scan_hash r \<Longrightarrow> is_pending_or_running_scan_hash r"
  by (simp add: is_running_scan_hash_def is_pending_or_running_scan_hash_def)

lemma status_rank_running:
  "is_pending_or_running_scan_hash r \<Longrightarrow> (status_rank r = 0) = is_running_scan_hash r"
  by (auto simp: is_running_scan_hash_def is_pending_or_running_scan_hash_def status_rank_def)

lemma inj_on_created_id: "distinct (map r_id rows) \<Longrightarrow> inj_on created_id (set rows)"
  by (auto simp: distinct_map inj_on_def created_id_def)

lemma inj_on_rank_created_id: "distinct (map r_id rows) \<Longrightarrow> inj_on rank_created_id (set rows)"
  by (auto simp: distinct_map inj_on_def rank_created_id_def)

lemma resolve_running_map:
  assumes "distinct (map r_id rows)"
  shows "resolve_duplicate_running_scan_hash_jobs now rows =
         map (\<lambda>r. if is_running_scan_hash r \<and> \<not> oldest_running rows r
                  then mutex_recovery_row now r else r) rows"
proof -
  have k: "(\<lambda>r. (r_created_at r, r_id r)) = created_id"
    by (simp add: created_id_def fun_eq_iff)
  show ?thesis
    unfolding resolve_duplicate_running_scan_hash_jobs_def Let_def k oldest_running_def
    by (rule update_all_but_first [OF assms inj_on_created_id [OF assms]])
qed

lemma resolve_active_map:
  assumes "distinct (map r_id rows)"
  shows "resolve_duplicate_pending_or_running_scan_hash_jobs now rows =
         map (\<lambda>r. if is_pending_or_running_scan_hash r \<and>
                     \<not> is_first is_pending_or_running_scan_hash rank_created_id rows r
                  then active_recovery_row now r else r) rows"
proof -
  have k: "(\<lambda>r. (status_rank r, r_created_at r, r_id r)) = rank_created_id"
    by (simp add: rank_created_id_def fun_eq_iff)
  show ?thesis
    unfolding resolve_duplicate_pending_or_running_scan_hash_jobs_def Let_def k
    by (rule update_all_but_first [OF assms inj_on_rank_created_id [OF assms]])
qed

lemma same_job_ids:
  "list_all2 same_job rows0 rows \<Longrightarrow> map r_id rows = map r_id rows0"
  by (induction rule: list_all2_induct) (auto simp: same_job_def)

lemma rank_le_running:
  assumes "status_rank a = 0" "status_rank b \<noteq> 0"
  shows "rank_created_id a \<le> rank_created_id b" and "\<not> rank_created_id b \<le> rank_created_id a"
  using assms by (auto simp: rank_created_id_def less_eq_prod_def)

lemma repair_rows_repaired:
  assumes d: "distinct (map r_id rows0)"
    and all: "list_all2 same_job rows0 rows"
    and ex: "\<exists>r \<in> set rows0. is_running_scan_hash r"
  shows "list_all2 (\<lambda>r0 r. repaired_row rows0 r0 r \<and> lowercase_row r) rows0 (repair_rows now rows)"
proof -
  let ?T1 = "map nz rows"
  let ?f1 = "\<lambda>r. if is_running_scan_hash r \<and> \<not> oldest_running ?T1 r
                  then mutex_recovery_row now r else r"
  let ?T2 = "map ?f1 ?T1"
  let ?f2 = "\<lambda>r. if is_pending_or_running_scan_hash r \<and>
                     \<not> is_first is_pending_or_running_scan_hash rank_created_id ?T2 r
                  then active_recovery_row now r else r"
  have all1: "list_all2 same_job rows0 ?T1"
    unfolding list_all2_map2
    by (rule list.rel_mono_strong [OF all]) (rule nz_same_job)
  have ids1: "map r_id ?T1 = map r_id rows0"
    by (rule same_job_ids [OF all1])
  have d1: "distinct (map r_id ?T1)"
    unfolding ids1 by (rule d)
  have f1id: "r_id (?f1 r) = r_id r" for r
    by (simp add: recovery_row_fields)
  have ids2: "map r_id ?T2 = map r_id ?T1"
    using f1id by (simp add: comp_def)
  have d2: "distinct (map r_id ?T2)"
    unfolding ids2 by (rule d1)
  have rr: "repair_rows now rows = map ?f2 ?T2"
    unfolding repair_rows_def normalize_map resolve_running_map [OF d1] resolve_active_map [OF d2] ..
  have low1: "lowercase_row r1" if "r1 \<in> set ?T1" for r1
    using that nz_lowercase by auto
  have inj1: "inj_on created_id (set ?T1)"
    by (rule inj_on_created_id [OF d1])
  \<comment> \<open>the oldest running row\<close>
  have "filter is_running_scan_hash rows0 \<noteq> []"
    using ex by (simp add: filter_empty_conv)
  then obtain m0 where m0: "m0 \<in> set (filter is_running_scan_hash rows0)"
      "\<forall>x \<in> set (filter is_running_scan_hash rows0). created_id m0 \<le> created_id x"
    using min_exists [of "filter is_running_scan_hash rows0" created_id] by blast
  then have m0o: "oldest_running rows0 m0" and m0m: "m0 \<in> set rows0"
    by (auto simp: oldest_running_def is_first_def)
  obtain m1 where m1: "m1 \<in> set ?T1" "same_job m0 m1"
    using list_all2_left_mem [OF all1 m0m] by blast
  have m1o: "oldest_running ?T1 m1"
    using same_job_oldest [OF all1 m1(2)] m0o by simp
  have m1r: "is_running_scan_hash m1"
    using m1o by (simp add: oldest_running_def is_first_def)
  have m1T2: "m1 \<in> set ?T2"
  proof -
    have e: "m1 = ?f1 m1" using m1o by simp
    have "?f1 m1 \<in> ?f1 ` set ?T1" using m1(1) by (rule imageI)
    then have "m1 \<in> ?f1 ` set ?T1" using e by simp
    then show ?thesis by (simp only: set_map)
  qed
  have m1rank: "status_rank m1 = 0" and m1act: "is_pending_or_running_scan_hash m1"
    using m1r running_is_active status_rank_running by auto
  \<comment> \<open>the active rows after the first repair\<close>
  have act2: "x \<in> set ?T1 \<and> (is_running_scan_hash x \<longrightarrow> oldest_running ?T1 x)"
    if "x \<in> set ?T2" "is_pending_or_running_scan_hash x" for x
  proof -
    have "x \<in> ?f1 ` set ?T1"
      using that(1) by (simp only: set_map)
    then obtain x1 where x1: "x1 \<in> set ?T1" "x = ?f1 x1"
      by (rule imageE)
    show ?thesis
    proof (cases "is_running_scan_hash x1 \<and> \<not> oldest_running ?T1 x1")
      case True
      then have "x = mutex_recovery_row now x1" using x1(2) by simp
      then have "\<not> is_pending_or_running_scan_hash x"
        by (simp add: retryable_not_active recovery_row_fields)
      with that(2) show ?thesis by simp
    next
      case False
      have "x = x1" using x1(2) by (simp only: if_not_P [OF False])
      with x1(1) False show ?thesis by blast
    qed
  qed
  have oldest_first2: "is_first is_pending_or_running_scan_hash rank_created_id ?T2 r1"
    if r1: "r1 \<in> set ?T1" "oldest_running ?T1 r1" for r1
  proof -
    have r1r: "is_running_scan_hash r1"
      using r1(2) by (simp add: oldest_running_def is_first_def)
    then have r1a: "is_pending_or_running_scan_hash r1" and r1k: "status_rank r1 = 0"
      using running_is_active status_rank_running by auto
    have "rank_created_id r1 \<le> rank_created_id x"
      if x: "x \<in> set ?T2" "is_pending_or_running_scan_hash x" for x
    proof (cases "is_running_scan_hash x")
      case True
      then have "oldest_running ?T1 x" "x \<in> set ?T1"
        using act2 [OF x] by auto
      then have "x = r1"
        using is_first_unique [OF inj1, of is_running_scan_hash x r1] r1
        by (simp add: oldest_running_def)
      then show ?thesis by simp
    next
      case False
      then have "status_rank x \<noteq> 0"
        using status_rank_running [OF x(2)] by simp
      then show ?thesis
        using rank_le_running(1) [OF r1k] by simp
    qed
    then show ?thesis
      using r1a by (simp add: is_first_def)
  qed
  have pending_not_first2: "\<not> is_first is_pending_or_running_scan_hash rank_created_id ?T2 r1"
    if "is_pending_or_running_scan_hash r1" "\<not> is_running_scan_hash r1" for r1
  proof -
    have "status_rank r1 \<noteq> 0"
      using status_rank_running [OF that(1)] that(2) by simp
    then have "\<not> rank_created_id r1 \<le> rank_created_id m1"
      using rank_le_running(2) [OF m1rank] by simp
    then show ?thesis
      using m1T2 m1act by (auto simp: is_first_def)
  qed
  \<comment> \<open>row by row\<close>
  have row: "repaired_row rows0 r0 (?f2 (?f1 r1)) \<and> lowercase_row (?f2 (?f1 r1))"
    if r0: "r0 \<in> set rows0" and r1: "r1 \<in> set ?T1" and sj: "same_job r0 r1" for r0 r1
  proof -
    have frame: "r_id r1 = r_id r0" "r_created_at r1 = r_created_at r0"
      using sj by (simp_all add: same_job_def)
    have run: "is_running_scan_hash r1 = is_running_scan_hash r0"
      by (rule same_job_reads(1) [OF sj])
    have old: "oldest_running ?T1 r1 = oldest_running rows0 r0"
      by (rule same_job_oldest [OF all1 sj])
    have l1: "lowercase_row r1" by (rule low1 [OF r1])
    show ?thesis
    proof (cases "oldest_running rows0 r0")
      case True
      then have o1: "oldest_running ?T1 r1" using old by simp
      then have r1r: "is_running_scan_hash r1"
        by (simp add: oldest_running_def is_first_def)
      have e1: "?f1 r1 = r1" using o1 by simp
      have e2: "?f2 r1 = r1" using oldest_first2 [OF r1 o1] by simp
      have "r_status r1 = ''running''"
        using l1 r1r by (simp add: lowercase_row_def is_running_scan_hash_def)
      then show ?thesis
        unfolding e1 e2 using True frame r1r l1 by (simp add: repaired_row_def)
    next
      case False
      then have o1: "\<not> oldest_running ?T1 r1" using old by simp
      show ?thesis
      proof (cases "is_running_scan_hash r0")
        case True
        then have e1: "?f1 r1 = mutex_recovery_row now r1" using run o1 by simp
        have na: "\<not> is_pending_or_running_scan_hash (mutex_recovery_row now r1)"
          by (simp add: retryable_not_active recovery_row_fields)
        then have e2: "?f2 (mutex_recovery_row now r1) = mutex_recovery_row now r1" by simp
        show ?thesis
          unfolding e1 e2
          using False frame na mutex_recovery_row_recovered retryable_lowercase(1) [OF l1]
          by (simp add: repaired_row_def recovery_row_fields)
      next
        case nr: False
        then have e1: "?f1 r1 = r1" using run by simp
        show ?thesis
        proof (cases "is_pending_or_running_scan_hash r1")
          case True
          then have e2: "?f2 r1 = active_recovery_row now r1"
            using pending_not_first2 [OF True] nr run by simp
          have na: "\<not> is_pending_or_running_scan_hash (active_recovery_row now r1)"
            by (simp add: retryable_not_active recovery_row_fields)
          show ?thesis
            unfolding e1 e2
            using False nr frame na retryable_lowercase(2) [OF l1]
            by (simp add: repaired_row_def recovery_row_fields)
        next
          case na: False
          then have e2: "?f2 r1 = r1" by simp
          show ?thesis
            unfolding e1 e2
            using False nr frame na l1 by (simp add: repaired_row_def)
        qed
      qed
    qed
  qed
  have "list_all2 (\<lambda>r0 r1. repaired_row rows0 r0 (?f2 (?f1 r1)) \<and> lowercase_row (?f2 (?f1 r1)))
          rows0 ?T1"
    by (rule list.rel_mono_strong [OF all1]) (rule row)
  then show ?thesis
    unfolding rr list_all2_map2 .
qed

subsection \<open>A repaired table is not changed by a second repair\<close>

lemma filter_length_rel:
  assumes "list_all2 R xs ys" "\<And>x y. R x y \<Longrightarrow> Q y \<Longrightarrow> P x"
  shows "length (filter Q ys) \<le> length (filter P xs)"
  using assms by (induction rule: list_all2_induct) auto

lemma filter_length_mono:
  "(\<And>x. P x \<Longrightarrow> Q x) \<Longrightarrow> length (filter P xs) \<le> length (filter Q xs)"
  by (induction xs) auto

lemma oldest_at_most_one:
  assumes "distinct (map r_id rows0)"
  shows "length (filter (oldest_running rows0) rows0) \<le> 1"
proof (rule ccontr)
  assume "\<not> length (filter (oldest_running rows0) rows0) \<le> 1"
  then have "2 \<le> length (filter (oldest_running rows0) rows0)" by simp
  then obtain a b where ab: "a \<in> set rows0" "b \<in> set rows0" "oldest_running rows0 a"
      "oldest_running rows0 b" "r_id a \<noteq> r_id b"
    using filter_two_distinct_ids [OF assms, of "oldest_running rows0"] by blast
  have "a = b"
    using is_first_unique [OF inj_on_created_id [OF assms], of is_running_scan_hash a b] ab(1-4)
    by (simp add: oldest_running_def)
  with ab(5) show False by simp
qed

lemma repaired_table_active:
  assumes "distinct (map r_id rows0)" "repaired_table rows0 rows"
  shows "length (filter is_pending_or_running_scan_hash rows) \<le> 1"
proof -
  have "length (filter is_pending_or_running_scan_hash rows)
      \<le> length (filter (oldest_running rows0) rows0)"
  proof (rule filter_length_rel)
    show "list_all2 (\<lambda>r0 r. repaired_row rows0 r0 r \<and> lowercase_row r) rows0 rows"
      using assms(2) by (simp add: repaired_table_def)
  next
    fix x y
    assume "repaired_row rows0 x y \<and> lowercase_row y" "is_pending_or_running_scan_hash y"
    then show "oldest_running rows0 x"
      by (auto simp: repaired_row_def split: if_splits)
  qed
  with oldest_at_most_one [OF assms(1)] show ?thesis by simp
qed

lemma update_where_id_in_empty: "update_where_id_in [] f rows = rows"
  by (simp add: update_where_id_in_def)

lemma repair_rows_fixed:
  assumes "\<forall>r \<in> set rows. lowercase_row r"
    and "length (filter is_pending_or_running_scan_hash rows) \<le> 1"
  shows "repair_rows now rows = rows"
proof -
  have n: "normalize_job_enum_values rows = rows"
    unfolding normalize_map using assms(1) by (simp add: map_idI nz_lowercase_id)
  have "length (filter is_running_scan_hash rows) \<le> length (filter is_pending_or_running_scan_hash rows)"
    by (rule filter_length_mono) (rule running_is_active)
  then have "length (filter is_running_scan_hash rows) \<le> 1"
    using assms(2) by simp
  then have r1: "resolve_duplicate_running_scan_hash_jobs now rows = rows"
    by (simp add: resolve_duplicate_running_scan_hash_jobs_def rows_after_first_short
        update_where_id_in_empty)
  have r2: "resolve_duplicate_pending_or_running_scan_hash_jobs now rows = rows"
    using assms(2)
    by (simp add: resolve_duplicate_pending_or_running_scan_hash_jobs_def rows_after_first_short
        update_where_id_in_empty)
  show ?thesis
    by (simp add: repair_rows_def n r1 r2)
qed

lemma repaired_table_lowercase:
  assumes "repaired_table rows0 rows"
  shows "\<forall>r \<in> set rows. lowercase_row r"
proof
  fix r assume "r \<in> set rows"
  then obtain r0 where "repaired_row rows0 r0 r \<and> lowercase_row r"
    using list_all2_right_mem [of "\<lambda>r0 r. repaired_row rows0 r0 r \<and> lowercase_row r" rows0 rows r] assms
    by (auto simp: repaired_table_def)
  then show "lowercase_row r" by simp
qed

lemma repaired_table_one_running:
  assumes d: "distinct (map r_id rows0)" and rt: "repaired_table rows0 rows"
    and ex: "\<exists>r \<in> set rows0. is_running_scan_hash r"
  shows "length (filter is_running_scan_hash rows) = 1"
proof -
  have "length (filter is_running_scan_hash rows) \<le> length (filter is_pending_or_running_scan_hash rows)"
    by (rule filter_length_mono) (rule running_is_active)
  then have le: "length (filter is_running_scan_hash rows) \<le> 1"
    using repaired_table_active [OF d rt] by simp
  have "filter is_running_scan_hash rows0 \<noteq> []"
    using ex by (simp add: filter_empty_conv)
  then obtain m0 where m0: "m0 \<in> set (filter is_running_scan_hash rows0)"
      "\<forall>x \<in> set (filter is_running_scan_hash rows0). created_id m0 \<le> created_id x"
    using min_exists [of "filter is_running_scan_hash rows0" created_id] by blast
  then have m0o: "oldest_running rows0 m0" and m0m: "m0 \<in> set rows0"
    by (auto simp: oldest_running_def is_first_def)
  obtain m where m: "m \<in> set rows" "repaired_row rows0 m0 m \<and> lowercase_row m"
    using list_all2_left_mem [of "\<lambda>r0 r. repaired_row rows0 r0 r \<and> lowercase_row r" rows0 rows m0]
      rt m0m by (auto simp: repaired_table_def)
  then have "is_running_scan_hash m"
    using m0o by (simp add: repaired_row_def)
  with m(1) have "filter is_running_scan_hash rows \<noteq> []"
    by (auto simp: filter_empty_conv)
  then have "1 \<le> length (filter is_running_scan_hash rows)"
    by (cases "filter is_running_scan_hash rows") simp_all
  with le show ?thesis by simp
qed

subsection \<open>The steps of the loop\<close>

lemma same_job_refl: "list_all2 same_job rows rows"
  by (simp add: list_all2_same same_job_def)

lemma repair_statements_pre:
  assumes d: "distinct (map r_id rows0)" and ex: "\<exists>r \<in> set rows0. is_running_scan_hash r"
    and pre: "pre_repair rows0 db" and cols: "has_lease_expires_at db" "has_error_code db"
  shows "\<exists>db'. repair_statements now db = Inr db' \<and> post_repair rows0 db'"
proof -
  have rt: "repaired_table rows0 (repair_rows now (jobs_rows db))"
    unfolding repaired_table_def
    using repair_rows_repaired [OF d _ ex] pre by (simp add: pre_repair_def)
  have le: "\<not> 1 < length (filter is_pending_or_running_scan_hash (repair_rows now (jobs_rows db)))"
    using repaired_table_active [OF d rt] by simp
  have "repair_statements now db =
      Inr (db\<lparr>jobs_rows := repair_rows now (jobs_rows db), single_active_index := True\<rparr>)"
    using cols le by (simp add: repair_statements_def Let_def)
  moreover have "post_repair rows0
      (db\<lparr>jobs_rows := repair_rows now (jobs_rows db), single_active_index := True\<rparr>)"
    using rt pre cols by (simp add: post_repair_def pre_repair_def)
  ultimately show ?thesis by blast
qed

lemma repair_statements_post:
  assumes d: "distinct (map r_id rows0)" and post: "post_repair rows0 db"
  shows "\<exists>db'. repair_statements now db = Inr db' \<and> post_repair rows0 db'"
proof -
  have rt: "repaired_table rows0 (jobs_rows db)"
    using post by (simp add: post_repair_def)
  have fx: "repair_rows now (jobs_rows db) = jobs_rows db"
    by (rule repair_rows_fixed [OF repaired_table_lowercase [OF rt] repaired_table_active [OF d rt]])
  have le: "\<not> 1 < length (filter is_pending_or_running_scan_hash (jobs_rows db))"
    using repaired_table_active [OF d rt] by simp
  have "repair_statements now db = Inr (db\<lparr>jobs_rows := jobs_rows db, single_active_index := True\<rparr>)"
    using post le by (simp add: repair_statements_def Let_def fx post_repair_def)
  moreover have "post_repair rows0 (db\<lparr>jobs_rows := jobs_rows db, single_active_index := True\<rparr>)"
    using post by (simp add: post_repair_def)
  ultimately show ?thesis by blast
qed

lemma migration_0005_pre:
  assumes "pre_repair rows0 db"
  shows "\<exists>db'. migration_0005_remove_job_execution_backend db = Inr db' \<and> pre_repair rows0 db'"
proof -
  let ?g = "\<lambda>r. r\<lparr>r_lease_expires_at := None, r_error_code := None\<rparr>"
  have "list_all2 same_job rows0 (map ?g (jobs_rows db))"
    unfolding list_all2_map2
    by (rule list.rel_mono_strong [of same_job rows0 "jobs_rows db"])
      (use assms in \<open>simp_all add: pre_repair_def same_job_def\<close>)
  then show ?thesis
    using assms by (simp add: migration_0005_remove_job_execution_backend_def pre_repair_def)
qed

lemma run_steps_cons:
  assumes "J db"
    and skip: "v \<in> set ex \<Longrightarrow> J' db"
    and run: "v \<notin> set ex \<Longrightarrow>
       \<exists>db'. f db = Inr db' \<and> J' (db'\<lparr>applied_versions := applied_versions db' @ [v]\<rparr>)"
    and rest: "\<And>d. J' d \<Longrightarrow> \<exists>d'. run_steps ex steps d = Inr d' \<and> Q d'"
  shows "\<exists>d'. run_steps ex ((v, f) # steps) db = Inr d' \<and> Q d'"
proof (cases "v \<in> set ex")
  case True
  then show ?thesis using skip rest by simp
next
  case False
  then obtain db' where "f db = Inr db'" "J' (db'\<lparr>applied_versions := applied_versions db' @ [v]\<rparr>)"
    using run by blast
  then show ?thesis using False rest by simp
qed

lemma at_step_applied [simp]:
  "at_step rows0 ex v (db\<lparr>applied_versions := vs\<rparr>) = at_step rows0 ex v db"
  by (simp add: at_step_def pre_repair_def post_repair_def)

lemma at_step_noop:
  assumes "at_step rows0 ex v db" "v \<noteq> 6" "v \<noteq> 9" "v \<le> 5 \<or> 7 \<le> v"
  shows "at_step rows0 ex (Suc v) db"
  using assms by (auto simp: at_step_def)

lemma noop_step:
  assumes a: "at_step rows0 ex v d" and v: "v \<noteq> 6" "v \<noteq> 9" "v \<le> 5 \<or> 7 \<le> v"
    and rest: "\<And>d. at_step rows0 ex (Suc v) d \<Longrightarrow> \<exists>d'. run_steps ex steps d = Inr d' \<and> Q d'"
  shows "\<exists>d'. run_steps ex ((v, Inr) # steps) d = Inr d' \<and> Q d'"
proof (rule run_steps_cons [where J = "at_step rows0 ex v" and J' = "at_step rows0 ex (Suc v)", OF a])
  show "at_step rows0 ex (Suc v) d"
    by (rule at_step_noop [OF a v])
  show "\<exists>db'. Inr d = Inr db' \<and>
      at_step rows0 ex (Suc v) (db'\<lparr>applied_versions := applied_versions db' @ [v]\<rparr>)"
    using at_step_noop [OF a v] by simp
  show "\<And>d. at_step rows0 ex (Suc v) d \<Longrightarrow> \<exists>d'. run_steps ex steps d = Inr d' \<and> Q d'"
    by (rule rest)
qed

lemma repair_step:
  assumes d: "distinct (map r_id rows0)" and exr: "\<exists>r \<in> set rows0. is_running_scan_hash r"
    and a: "at_step rows0 ex v d" and v: "v = 7 \<or> v = 9" and nine: "9 \<notin> set ex"
    and f: "\<And>x. f x = (if \<not> jobs_exists x then Inr x else repair_statements now x)"
    and rest: "\<And>d. at_step rows0 ex (Suc v) d \<Longrightarrow> \<exists>d'. run_steps ex steps d = Inr d' \<and> Q d'"
  shows "\<exists>d'. run_steps ex ((v, f) # steps) d = Inr d' \<and> Q d'"
proof (rule run_steps_cons [where J = "at_step rows0 ex v" and J' = "at_step rows0 ex (Suc v)", OF a])
  assume "v \<in> set ex"
  then have "v = 7" using v nine by auto
  then show "at_step rows0 ex (Suc v) d"
    using a by (auto simp: at_step_def)
next
  assume "v \<notin> set ex"
  have je: "jobs_exists d"
    using a by (auto simp: at_step_def pre_repair_def post_repair_def)
  have "\<exists>db'. repair_statements now d = Inr db' \<and> post_repair rows0 db'"
  proof (cases "post_repair rows0 d")
    case True
    then show ?thesis by (rule repair_statements_post [OF d])
  next
    case False
    then have "pre_repair rows0 d" "has_lease_expires_at d" "has_error_code d"
      using a v by (auto simp: at_step_def)
    then show ?thesis by (rule repair_statements_pre [OF d exr])
  qed
  then obtain db' where db': "repair_statements now d = Inr db'" "post_repair rows0 db'"
    by blast
  have "at_step rows0 ex (Suc v) db'"
    using db'(2) v by (auto simp: at_step_def)
  then have "at_step rows0 ex (Suc v) (db'\<lparr>applied_versions := applied_versions db' @ [v]\<rparr>)"
    by simp
  then show "\<exists>db'. f d = Inr db' \<and>
      at_step rows0 ex (Suc v) (db'\<lparr>applied_versions := applied_versions db' @ [v]\<rparr>)"
    using f [of d] je db'(1) by simp
next
  show "\<And>d. at_step rows0 ex (Suc v) d \<Longrightarrow> \<exists>d'. run_steps ex steps d = Inr d' \<and> Q d'"
    by (rule rest)
qed

lemma step_6:
  assumes d: "distinct (map r_id rows0)" and exr: "\<exists>r \<in> set rows0. is_running_scan_hash r"
    and a: "at_step rows0 ex 6 d"
    and rest: "\<And>d. at_step rows0 ex 7 d \<Longrightarrow> \<exists>d'. run_steps ex steps d = Inr d' \<and> Q d'"
  shows "\<exists>d'. run_steps ex ((6, migration_0006_jobs_lease_protocol now) # steps) d = Inr d' \<and> Q d'"
proof (rule run_steps_cons [where J = "at_step rows0 ex 6" and J' = "at_step rows0 ex 7", OF a])
  assume "6 \<in> set ex"
  then show "at_step rows0 ex 7 d"
    using a by (auto simp: at_step_def)
next
  assume "6 \<notin> set ex"
  let ?d2 = "d\<lparr>has_lease_expires_at := True, has_error_code := True\<rparr>"
  have pre: "pre_repair rows0 d"
    using a by (auto simp: at_step_def)
  then have pre2: "pre_repair rows0 ?d2"
    by (simp add: pre_repair_def)
  obtain db' where db': "repair_statements now ?d2 = Inr db'" "post_repair rows0 db'"
    using repair_statements_pre [OF d exr pre2] by auto
  have "at_step rows0 ex 7 db'"
    using db'(2) by (simp add: at_step_def)
  then have "at_step rows0 ex 7 (db'\<lparr>applied_versions := applied_versions db' @ [6]\<rparr>)"
    by simp
  then show "\<exists>db'. migration_0006_jobs_lease_protocol now d = Inr db' \<and>
      at_step rows0 ex 7 (db'\<lparr>applied_versions := applied_versions db' @ [6]\<rparr>)"
    using pre db'(1) by (simp add: migration_0006_jobs_lease_protocol_def pre_repair_def)
next
  show "\<And>d. at_step rows0 ex 7 d \<Longrightarrow> \<exists>d'. run_steps ex steps d = Inr d' \<and> Q d'"
    by (rule rest)
qed

lemma step_5:
  assumes a: "at_step rows0 ex 5 d" and six: "5 \<notin> set ex \<Longrightarrow> 6 \<notin> set ex"
    and rest: "\<And>d. at_step rows0 ex 6 d \<Longrightarrow> \<exists>d'. run_steps ex steps d = Inr d' \<and> Q d'"
  shows "\<exists>d'. run_steps ex ((5, migration_0005_remove_job_execution_backend) # steps) d = Inr d' \<and> Q d'"
proof (rule run_steps_cons [where J = "at_step rows0 ex 5" and J' = "at_step rows0 ex 6", OF a])
  assume "5 \<in> set ex"
  show "at_step rows0 ex 6 d"
    using a by (auto simp: at_step_def)
next
  assume n5: "5 \<notin> set ex"
  have pre: "pre_repair rows0 d"
    using a by (auto simp: at_step_def)
  obtain db' where db': "migration_0005_remove_job_execution_backend d = Inr db'" "pre_repair rows0 db'"
    using migration_0005_pre [OF pre] by auto
  have "at_step rows0 ex 6 db'"
    using db'(2) six [OF n5] by (simp add: at_step_def)
  then have "at_step rows0 ex 6 (db'\<lparr>applied_versions := applied_versions db' @ [5]\<rparr>)"
    by simp
  with db'(1) show "\<exists>db'. migration_0005_remove_job_execution_backend d = Inr db' \<and>
      at_step rows0 ex 6 (db'\<lparr>applied_versions := applied_versions db' @ [5]\<rparr>)"
    by blast
next
  show "\<And>d. at_step rows0 ex 6 d \<Longrightarrow> \<exists>d'. run_steps ex steps d = Inr d' \<and> Q d'"
    by (rule rest)
qed

lemma run_all_steps:
  assumes d: "distinct (map r_id rows0)" and exr: "\<exists>r \<in> set rows0. is_running_scan_hash r"
    and a: "at_step rows0 ex 1 db" and nine: "9 \<notin> set ex" and six: "5 \<notin> set ex \<Longrightarrow> 6 \<notin> set ex"
    and acc: "\<forall>v. accept v"
  shows "\<exists>d'. run_steps ex (MIGRATIONS now accept) db = Inr d' \<and> post_repair rows0 d'"
proof -
  let ?Q = "post_repair rows0"
  have other: "other_tables_step accept v = Inr" for v
    using acc by (simp add: other_tables_step_def fun_eq_iff)
  have s13: "\<exists>d'. run_steps ex [] x = Inr d' \<and> ?Q d'" if "at_step rows0 ex 13 x" for x
    using that by (simp add: at_step_def)
  have s12: "\<exists>d'. run_steps ex [(12, Inr)] x = Inr d' \<and> ?Q d'" if "at_step rows0 ex 12 x" for x
    by (rule noop_step [OF that]) (use s13 in simp_all)
  have s11: "\<exists>d'. run_steps ex [(11, Inr), (12, Inr)] x = Inr d' \<and> ?Q d'"
    if "at_step rows0 ex 11 x" for x
    by (rule noop_step [OF that]) (use s12 in simp_all)
  have s10: "\<exists>d'. run_steps ex [(10, Inr), (11, Inr), (12, Inr)] x = Inr d' \<and> ?Q d'"
    if "at_step rows0 ex 10 x" for x
    by (rule noop_step [OF that]) (use s11 in simp_all)
  have s9: "\<exists>d'. run_steps ex [(9, migration_0009_scan_hash_admission_mutex now),
      (10, Inr), (11, Inr), (12, Inr)] x = Inr d' \<and> ?Q d'"
    if "at_step rows0 ex 9 x" for x
    by (rule repair_step [OF d exr that _ nine])
      (use s10 in \<open>simp_all add: migration_0009_scan_hash_admission_mutex_def\<close>)
  have s8: "\<exists>d'. run_steps ex [(8, Inr), (9, migration_0009_scan_hash_admission_mutex now),
      (10, Inr), (11, Inr), (12, Inr)] x = Inr d' \<and> ?Q d'"
    if "at_step rows0 ex 8 x" for x
    by (rule noop_step [OF that]) (use s9 in simp_all)
  have s7: "\<exists>d'. run_steps ex [(7, migration_0007_normalize_enum_storage_for_rust_protocol now),
      (8, Inr), (9, migration_0009_scan_hash_admission_mutex now),
      (10, Inr), (11, Inr), (12, Inr)] x = Inr d' \<and> ?Q d'"
    if "at_step rows0 ex 7 x" for x
    by (rule repair_step [OF d exr that _ nine])
      (use s8 in \<open>simp_all add: migration_0007_normalize_enum_storage_for_rust_protocol_def\<close>)
  have s6: "\<exists>d'. run_steps ex [(6, migration_0006_jobs_lease_protocol now),
      (7, migration_0007_normalize_enum_storage_for_rust_protocol now),
      (8, Inr), (9, migration_0009_scan_hash_admission_mutex now),
      (10, Inr), (11, Inr), (12, Inr)] x = Inr d' \<and> ?Q d'"
    if "at_step rows0 ex 6 x" for x
    by (rule step_6 [OF d exr that]) (use s7 in simp)
  have s5: "\<exists>d'. run_steps ex [(5, migration_0005_remove_job_execution_backend),
      (6, migration_0006_jobs_lease_protocol now),
      (7, migration_0007_normalize_enum_storage_for_rust_protocol now),
      (8, Inr), (9, migration_0009_scan_hash_admission_mutex now),
      (10, Inr), (11, Inr), (12, Inr)] x = Inr d' \<and> ?Q d'"
    if "at_step rows0 ex 5 x" for x
    by (rule step_5 [OF that six]) (use s6 in simp_all)
  have s4: "\<exists>d'. run_steps ex [(4, Inr), (5, migration_0005_remove_job_execution_backend),
      (6, migration_0006_jobs_lease_protocol now),
      (7, migration_0007_normalize_enum_storage_for_rust_protocol now),
      (8, Inr), (9, migration_0009_scan_hash_admission_mutex now),
      (10, Inr), (11, Inr), (12, Inr)] x = Inr d' \<and> ?Q d'"
    if "at_step rows0 ex 4 x" for x
    by (rule noop_step [OF that]) (use s5 in simp_all)
  have s3: "\<exists>d'. run_steps ex [(3, Inr), (4, Inr), (5, migration_0005_remove_job_execution_backend),
      (6, migration_0006_jobs_lease_protocol now),
      (7, migration_0007_normalize_enum_storage_for_rust_protocol now),
      (8, Inr), (9, migration_0009_scan_hash_admission_mutex now),
      (10, Inr), (11, Inr), (12, Inr)] x = Inr d' \<and> ?Q d'"
    if "at_step rows0 ex 3 x" for x
    by (rule noop_step [OF that]) (use s4 in simp_all)
  have s2: "\<exists>d'. run_steps ex [(2, Inr), (3, Inr), (4, Inr),
      (5, migration_0005_remove_job_execution_backend),
      (6, migration_0006_jobs_lease_protocol now),
      (7, migration_0007_normalize_enum_storage_for_rust_protocol now),
      (8, Inr), (9, migration_0009_scan_hash_admission_mutex now),
      (10, Inr), (11, Inr), (12, Inr)] x = Inr d' \<and> ?Q d'"
    if "at_step rows0 ex 2 x" for x
    by (rule noop_step [OF that]) (use s3 in simp_all)
  show ?thesis
    unfolding MIGRATIONS_def other
  proof (rule noop_step [OF a])
    fix x
    assume "at_step rows0 ex (Suc 1) x"
    then have "at_step rows0 ex 2 x"
      by (simp only: Suc_1)
    then show "\<exists>d'. run_steps ex [(2, Inr), (3, Inr), (4, Inr),
      (5, migration_0005_remove_job_execution_backend),
      (6, migration_0006_jobs_lease_protocol now),
      (7, migration_0007_normalize_enum_storage_for_rust_protocol now),
      (8, Inr), (9, migration_0009_scan_hash_admission_mutex now),
      (10, Inr), (11, Inr), (12, Inr)] x = Inr d' \<and> ?Q d'"
      by (rule s2)
  qed simp_all
qed

text \<open>
  Claim C9.  Take a store with a jobs table whose rows have distinct ids and of which two or
  more are running scan or hash jobs, with the migrations \<open>1..n\<close> applied, a mutex migration
  still pending (\<open>n < 9\<close>), and the lease columns present once migration 6 is applied; the
  store accepts the statements of the steps that act on other tables.  Then
  \<open>apply_migrations\<close> succeeds, exactly one scan or hash job is running afterwards, and each row
  is repaired: the oldest running scan or hash job by \<open>(created_at, id)\<close> is still running, and
  every other running scan or hash job is retryable with error code
  \<open>MIGRATION_MUTEX_RECOVERY\<close> and with \<open>worker_id\<close>, \<open>worker_heartbeat_at\<close> and
  \<open>lease_expires_at\<close> cleared.
\<close>

theorem apply_migrations_resolves_duplicate_running:
  assumes je: "jobs_exists db"
    and d: "distinct (map r_id (jobs_rows db))"
    and vs: "set (applied_versions db) = {1..n}"
    and n: "n < 9"
    and cols: "6 \<le> n \<Longrightarrow> has_lease_expires_at db \<and> has_error_code db"
    and two: "2 \<le> length (filter is_running_scan_hash (jobs_rows db))"
    and acc: "\<forall>v. accept v"
  shows "\<exists>db'. apply_migrations now accept db = Inr db' \<and>
           length (filter is_running_scan_hash (jobs_rows db')) = 1 \<and>
           list_all2 (repaired_row (jobs_rows db)) (jobs_rows db) (jobs_rows db')"
proof -
  let ?rows0 = "jobs_rows db"
  let ?ex = "applied_versions db"
  have mem: "v \<in> set ?ex \<longleftrightarrow> 1 \<le> v \<and> v \<le> n" for v
    unfolding vs by simp
  have "filter is_running_scan_hash ?rows0 \<noteq> []"
    using two by auto
  then have exr: "\<exists>r \<in> set ?rows0. is_running_scan_hash r"
    by (simp add: filter_empty_conv)
  have same: "list_all2 same_job ?rows0 ?rows0"
    by (rule same_job_refl)
  have a: "at_step ?rows0 ?ex 1 db"
    using je same cols mem [of 6] by (auto simp: at_step_def pre_repair_def)
  have nine: "9 \<notin> set ?ex"
    using n by (simp add: mem)
  have six: "5 \<notin> set ?ex \<Longrightarrow> 6 \<notin> set ?ex"
    by (simp add: mem)
  obtain db' where r: "run_steps ?ex (MIGRATIONS now accept) db = Inr db'"
    and p: "post_repair ?rows0 db'"
    using run_all_steps [OF d exr a nine six acc] by blast
  have rt: "repaired_table ?rows0 (jobs_rows db')"
    using p by (simp add: post_repair_def)
  have one: "length (filter is_running_scan_hash (jobs_rows db')) = 1"
    by (rule repaired_table_one_running [OF d rt exr])
  have "list_all2 (repaired_row ?rows0) ?rows0 (jobs_rows db')"
    by (rule list_all2_mono [OF rt [unfolded repaired_table_def]]) simp
  with r one show ?thesis
    by (simp add: apply_migrations_def)
qed

theorem apply_migrations_resolves_duplicate_running_witness:
  "jobs_exists ex_mig_db \<and> distinct (map r_id (jobs_rows ex_mig_db)) \<and>
   set (applied_versions ex_mig_db) = {1..6} \<and>
   has_lease_expires_at ex_mig_db \<and> has_error_code ex_mig_db \<and>
   2 \<le> length (filter is_running_scan_hash (jobs_rows ex_mig_db)) \<and>
   (\<exists>db'. apply_migrations 100 (\<lambda>v. True) ex_mig_db = Inr db' \<and>
      length (filter is_running_scan_hash (jobs_rows db')) = 1 \<and>
      list_all2 (repaired_row (jobs_rows ex_mig_db)) (jobs_rows ex_mig_db) (jobs_rows db'))"
proof -
  have v: "set (applied_versions ex_mig_db) = {1..6}"
    by (auto simp: ex_mig_db_def)
  have l: "sql_lower ''RUNNING'' = ''running''" "sql_lower ''SCAN'' = ''scan''"
      "sql_lower ''HASH'' = ''hash''"
    by code_simp+
  have two: "2 \<le> length (filter is_running_scan_hash (jobs_rows ex_mig_db))"
    by (simp add: ex_mig_db_def ex_job_row_def is_running_scan_hash_def l)
  have h: "jobs_exists ex_mig_db" "distinct (map r_id (jobs_rows ex_mig_db))"
      "has_lease_expires_at ex_mig_db" "has_error_code ex_mig_db"
    by (simp_all add: ex_mig_db_def ex_job_row_def)
  show ?thesis
    using apply_migrations_resolves_duplicate_running [of ex_mig_db 6 "\<lambda>v. True" 100] v two h by simp
qed

text \<open>
  The example store after the migrations: the older job is still running, with no worker and no
  lease, the other one is retryable, and every version is recorded.
\<close>

lemma apply_migrations_example:
  "map_sum id
     (\<lambda>d. (map (\<lambda>r. (r_id r, r_kind r, r_status r, r_worker_id r, r_lease_expires_at r, r_error_code r))
             (jobs_rows d),
           applied_versions d, single_active_index d))
     (apply_migrations 100 (\<lambda>v. True) ex_mig_db) =
   Inr ([(''job-a'', ''scan'', ''running'', None, None, None),
         (''job-b'', ''hash'', ''retryable'', None, None, Some ''MIGRATION_MUTEX_RECOVERY'')],
        [1, 2, 3, 4, 5, 6, 7, 8, 9, 10, 11, 12], True)"
  by code_simp

section \<open>Properties of the thumbnail queue\<close>

subsection \<open>The two halves of request_thumbnail\<close>

lemma coerce_utc_id: "coerce_utc v = v"
  by (cases v) (simp_all add: coerce_utc_def)

lemma find_append_new:
  "find P xs = None \<Longrightarrow> P y \<Longrightarrow> find P (xs @ [y]) = Some y"
  by (induction xs) (auto split: if_splits)

lemma lookup_or_admit_unfold:
  "lookup_or_admit cfg os now db item media_type normalized_format normalized_dimension =
     (let thumb_key = build_thumb_key os item normalized_dimension normalized_format;
          output_relpath = build_output_relpath thumb_key normalized_format;
          group_key = build_group_key item
      in
      case find (\<lambda>t. t_thumb_key t = thumb_key) db of
        Some existing \<Rightarrow>
          if t_status existing = T_FAILED \<and>
             (case coerce_utc (t_retry_after existing) of None \<Rightarrow> True | Some retry_after \<Rightarrow> retry_after \<le> now)
          then
            (let existing' = existing\<lparr>t_status := T_PENDING,
                                       t_error_code := None,
                                       t_error_message := None,
                                       t_retry_after := None,
                                       t_worker_id := None,
                                       t_worker_heartbeat_at := None,
                                       t_lease_expires_at := None,
                                       t_started_at := None,
                                       t_finished_at := None,
                                       t_updated_at := now\<rparr>
             in (update_thumbnail db existing', Inr (thumb_to_snapshot existing')))
          else (db, Inr (thumb_to_snapshot existing))
      | None \<Rightarrow>
          (let queued = \<lparr>t_id = next_rowid (map t_id db),
                         t_thumb_key = thumb_key,
                         t_file_id = lf_id item,
                         t_group_key = group_key,
                         t_status = T_PENDING,
                         t_media_type = media_type,
                         t_format = normalized_format,
                         t_max_dimension = normalized_dimension,
                         t_version = 2,
                         t_source_size_bytes = lf_size_bytes item,
                         t_source_mtime_ns = lf_mtime_ns item,
                         t_output_relpath = Some output_relpath,
                         t_width = None,
                         t_height = None,
                         t_bytes_size = None,
                         t_error_code = None,
                         t_error_message = None,
                         t_error_count = 0,
                         t_retry_after = None,
                         t_worker_id = None,
                         t_worker_heartbeat_at = None,
                         t_lease_expires_at = None,
                         t_created_at = now,
                         t_updated_at = now,
                         t_started_at = None,
                         t_finished_at = None\<rparr>
           in
           case conditional_insert cfg db queued of
             Inl e \<Rightarrow>
               (case find (\<lambda>t. t_thumb_key t = thumb_key) db of
                  None \<Rightarrow> (db, Inl e)
                | Some existing \<Rightarrow> (db, Inr (thumb_to_snapshot existing)))
           | Inr sess \<Rightarrow>
               (case find (\<lambda>t. t_thumb_key t = thumb_key) sess of
                  None \<Rightarrow>
                    (case find (\<lambda>t. t_thumb_key t = thumb_key) db of
                       Some existing \<Rightarrow> (db, Inr (thumb_to_snapshot existing))
                     | None \<Rightarrow> (db, Inl ThumbnailQueueFullError))
                | Some inserted_row \<Rightarrow>
                    (case find (\<lambda>t. t_thumb_key t = thumb_key) sess of
                       None \<Rightarrow> (sess, Inl ThumbnailPolicyError)
                     | Some created \<Rightarrow> (sess, Inr (thumb_to_snapshot created))))))"
proof (cases "find (\<lambda>t. t_thumb_key t = build_thumb_key os item normalized_dimension normalized_format) db")
  case (Some existing)
  then show ?thesis
    by (simp add: lookup_or_admit_def Let_def retry_eligible_def reset_row_def coerce_utc_id)
next
  case None
  let ?key = "build_thumb_key os item normalized_dimension normalized_format"
  let ?q = "queued_row os now db item media_type normalized_format normalized_dimension"
  have free: "\<not> (\<exists>t \<in> set db. t_thumb_key t = ?key)"
    using None by (auto simp: find_None_iff)
  have key: "t_thumb_key ?q = ?key"
    by (simp add: queued_row_def)
  show ?thesis
  proof (cases "int (queue_depth db) < thumbnail_queue_capacity cfg")
    case True
    have ins: "conditional_insert cfg db ?q = Inr (db @ [?q])"
      using True free key by (simp add: conditional_insert_def)
    have found: "find (\<lambda>t. t_thumb_key t = ?key) (db @ [?q]) = Some ?q"
      using None key by (rule find_append_new)
    show ?thesis
      using None True ins found
      by (simp add: lookup_or_admit_def Let_def queued_row_def)
  next
    case False
    have ins: "conditional_insert cfg db ?q = Inr db"
      using False by (simp add: conditional_insert_def)
    show ?thesis
      using None False ins
      by (simp add: lookup_or_admit_def Let_def queued_row_def)
  qed
qed

lemma request_thumbnail_halves:
  "request_thumbnail cfg os now files roots db file_id max_dimension output_format =
     (case request_target cfg os files roots file_id max_dimension output_format of
        Inl e \<Rightarrow> (db, Inl e)
      | Inr (item, media_type, normalized_format, normalized_dimension) \<Rightarrow>
          lookup_or_admit cfg os now db item media_type normalized_format normalized_dimension)"
  unfolding request_thumbnail_def request_target_def lookup_or_admit_unfold
  by (simp split: sum.split option.split)

subsection \<open>A second request\<close>

lemma thumb_to_snapshot_of: "snapshot_of row (thumb_to_snapshot row)"
  by (simp add: snapshot_of_def thumb_to_snapshot_def)

lemma find_update_thumbnail:
  assumes "find (\<lambda>t. t_thumb_key t = k) db = Some e" "t_id e' = t_id e" "t_thumb_key e' = k"
  shows "find (\<lambda>t. t_thumb_key t = k) (update_thumbnail db e') = Some e'"
  using assms by (induction db) (auto simp: update_thumbnail_def split: if_splits)

lemma find_Some_key: "find (\<lambda>t. t_thumb_key t = k) db = Some e \<Longrightarrow> e \<in> set db \<and> t_thumb_key e = k"
  by (induction db) (auto split: if_splits)

lemma update_thumbnail_mem:
  "e \<in> set db \<Longrightarrow> t_id e' = t_id e \<Longrightarrow> e' \<in> set (update_thumbnail db e')"
  by (auto simp: update_thumbnail_def)

lemma reset_row_fields:
  "t_id (reset_row now e) = t_id e"
  "t_thumb_key (reset_row now e) = t_thumb_key e"
  "t_status (reset_row now e) = T_PENDING"
  by (simp_all add: reset_row_def)

lemma queued_row_fields:
  "t_id (queued_row os now db item mt nf nd) = next_rowid (map t_id db)"
  "t_thumb_key (queued_row os now db item mt nf nd) = build_thumb_key os item nd nf"
  "t_status (queued_row os now db item mt nf nd) = T_PENDING"
  by (simp_all add: queued_row_def)

lemma retry_eligible_snapshot:
  "retry_eligible now e =
     (ts_status (thumb_to_snapshot e) = T_FAILED \<and>
      (case ts_retry_after (thumb_to_snapshot e) of None \<Rightarrow> True | Some t \<Rightarrow> t \<le> now))"
  by (simp add: retry_eligible_def thumb_to_snapshot_def)

lemma lookup_or_admit_again:
  assumes first: "lookup_or_admit cfg os now db item mt nf nd = (db1, Inr snap)"
    and later: "\<not> (ts_status snap = T_FAILED \<and>
                  (case ts_retry_after snap of None \<Rightarrow> True | Some t \<Rightarrow> t \<le> now'))"
  shows "lookup_or_admit cfg os now' db1 item mt nf nd = (db1, Inr snap) \<and>
         (\<exists>row \<in> set db1. snapshot_of row snap)"
proof (cases "find (\<lambda>t. t_thumb_key t = build_thumb_key os item nd nf) db")
  case (Some e)
  note mem = find_Some_key [OF Some]
  show ?thesis
  proof (cases "retry_eligible now e")
    case True
    let ?e' = "reset_row now e"
    have res: "db1 = update_thumbnail db ?e'" "snap = thumb_to_snapshot ?e'"
      using first Some True by (simp_all add: lookup_or_admit_def)
    have found: "find (\<lambda>t. t_thumb_key t = build_thumb_key os item nd nf) db1 = Some ?e'"
      unfolding res(1) using Some mem by (intro find_update_thumbnail) (simp_all add: reset_row_fields)
    have no: "\<not> retry_eligible now' ?e'"
      by (simp add: retry_eligible_def reset_row_fields)
    have again: "lookup_or_admit cfg os now' db1 item mt nf nd = (db1, Inr snap)"
      using found no res(2) by (simp add: lookup_or_admit_def)
    have "?e' \<in> set db1"
      unfolding res(1) using mem by (intro update_thumbnail_mem) (simp_all add: reset_row_fields)
    then have "\<exists>row \<in> set db1. snapshot_of row snap"
      unfolding res(2) using thumb_to_snapshot_of by blast
    with again show ?thesis by simp
  next
    case False
    have res: "db1 = db" "snap = thumb_to_snapshot e"
      using first Some False by (simp_all add: lookup_or_admit_def)
    have no: "\<not> retry_eligible now' e"
      using later unfolding res(2) retry_eligible_snapshot [symmetric] .
    have again: "lookup_or_admit cfg os now' db1 item mt nf nd = (db1, Inr snap)"
      using Some no res by (simp add: lookup_or_admit_def)
    have "\<exists>row \<in> set db1. snapshot_of row snap"
      unfolding res using mem thumb_to_snapshot_of by blast
    with again show ?thesis by simp
  qed
next
  case None
  let ?q = "queued_row os now db item mt nf nd"
  have room: "int (queue_depth db) < thumbnail_queue_capacity cfg"
    using first None by (auto simp: lookup_or_admit_def split: if_splits)
  have res: "db1 = db @ [?q]" "snap = thumb_to_snapshot ?q"
    using first None room by (simp_all add: lookup_or_admit_def)
  have found: "find (\<lambda>t. t_thumb_key t = build_thumb_key os item nd nf) db1 = Some ?q"
    unfolding res(1) using None by (rule find_append_new) (simp add: queued_row_fields)
  have no: "\<not> retry_eligible now' ?q"
    by (simp add: retry_eligible_def queued_row_fields)
  have again: "lookup_or_admit cfg os now' db1 item mt nf nd = (db1, Inr snap)"
    using found no res(2) by (simp add: lookup_or_admit_def)
  have "?q \<in> set db1"
    unfolding res(1) by simp
  then have "\<exists>row \<in> set db1. snapshot_of row snap"
    unfolding res(2) using thumb_to_snapshot_of by blast
  with again show ?thesis by simp
qed

subsection \<open>One row for a key\<close>

lemma next_rowid_fresh: "next_rowid ids \<notin> set ids"
proof (cases "ids = []")
  case True
  then show ?thesis by simp
next
  case False
  have "x < next_rowid ids" if "x \<in> set ids" for x
  proof -
    have "x \<le> Max (set ids)" using that by simp
    then show ?thesis using False by (simp add: next_rowid_def)
  qed
  then show ?thesis by blast
qed

lemma update_thumbnail_columns:
  assumes "distinct (map t_id db)" "e \<in> set db" "t_id e' = t_id e" "t_thumb_key e' = t_thumb_key e"
  shows "map t_id (update_thumbnail db e') = map t_id db"
    and "map t_thumb_key (update_thumbnail db e') = map t_thumb_key db"
proof -
  show "map t_id (update_thumbnail db e') = map t_id db"
    by (simp add: update_thumbnail_def)
  have inj: "inj_on t_id (set db)"
    using assms(1) by (simp add: distinct_map)
  have "t_thumb_key (if t_id t = t_id e' then e' else t) = t_thumb_key t" if "t \<in> set db" for t
  proof (cases "t_id t = t_id e'")
    case True
    then have "t = e"
      using inj that assms(2,3) by (auto dest: inj_onD)
    with True assms(4) show ?thesis by simp
  next
    case False
    then show ?thesis by simp
  qed
  then show "map t_thumb_key (update_thumbnail db e') = map t_thumb_key db"
    by (simp add: update_thumbnail_def)
qed

lemma lookup_or_admit_distinct:
  assumes ids: "distinct (map t_id db)" and keys: "distinct (map t_thumb_key db)"
  shows "distinct (map t_id (fst (lookup_or_admit cfg os now db item mt nf nd))) \<and>
         distinct (map t_thumb_key (fst (lookup_or_admit cfg os now db item mt nf nd)))"
proof (cases "find (\<lambda>t. t_thumb_key t = build_thumb_key os item nd nf) db")
  case (Some e)
  note mem = find_Some_key [OF Some]
  show ?thesis
  proof (cases "retry_eligible now e")
    case True
    have e: "e \<in> set db"
      using mem by simp
    have "map t_id (update_thumbnail db (reset_row now e)) = map t_id db"
      "map t_thumb_key (update_thumbnail db (reset_row now e)) = map t_thumb_key db"
      by (rule update_thumbnail_columns [OF ids e]; simp add: reset_row_fields)+
    then show ?thesis
      using Some True ids keys by (simp add: lookup_or_admit_def)
  next
    case False
    then show ?thesis
      using Some ids keys by (simp add: lookup_or_admit_def)
  qed
next
  case None
  have free: "build_thumb_key os item nd nf \<notin> t_thumb_key ` set db"
    using None by (auto simp: find_None_iff)
  have fresh: "next_rowid (map t_id db) \<notin> t_id ` set db"
    using next_rowid_fresh [of "map t_id db"] by simp
  show ?thesis
    using None ids keys free fresh by (simp add: lookup_or_admit_def queued_row_fields)
qed

text \<open>
  Claim C6.  \<open>request_thumbnail\<close> keeps the primary key and the unique \<open>thumb_key\<close> of
  the table, so there is at most one row for a key.  And when a call has returned a snapshot, a
  second call with the same file, dimension and format (at any later clock value, with the
  library tables and the platform as they were) for which the row is not a failed row whose
  \<open>retry_after\<close> is null or has passed returns the same snapshot and leaves the table as it is;
  the snapshot carries the fields of a row of the table, and so every requester sees the same
  row identifier.  More generally, whenever the table holds a row with the key of the request
  that is not such a failed row, the call returns the snapshot of that row and leaves the table
  as it is.
\<close>

theorem request_thumbnail_idempotent:
  "(distinct (map t_id db) \<and> distinct (map t_thumb_key db) \<longrightarrow>
      distinct (map t_id
        (fst (request_thumbnail cfg os now files roots db file_id max_dimension output_format))) \<and>
      distinct (map t_thumb_key
        (fst (request_thumbnail cfg os now files roots db file_id max_dimension output_format)))) \<and>
   (request_thumbnail cfg os now files roots db file_id max_dimension output_format = (db1, Inr snap) \<and>
    \<not> (ts_status snap = T_FAILED \<and>
       (case ts_retry_after snap of None \<Rightarrow> True | Some retry_after \<Rightarrow> retry_after \<le> now')) \<longrightarrow>
      request_thumbnail cfg os now' files roots db1 file_id max_dimension output_format =
        (db1, Inr snap) \<and>
      (\<exists>row \<in> set db1. snapshot_of row snap)) \<and>
   (request_target cfg os files roots file_id max_dimension output_format =
      Inr (item, media_type, normalized_format, normalized_dimension) \<and>
    find (\<lambda>t. t_thumb_key t = build_thumb_key os item normalized_dimension normalized_format) db =
      Some existing \<and>
    \<not> retry_eligible now existing \<longrightarrow>
      (\<exists>s. request_thumbnail cfg os now files roots db file_id max_dimension output_format =
         (db, Inr s) \<and> snapshot_of existing s))"
proof -
  have last: "\<exists>s. request_thumbnail cfg os now files roots db file_id max_dimension output_format =
         (db, Inr s) \<and> snapshot_of existing s"
    if "request_target cfg os files roots file_id max_dimension output_format =
          Inr (item, media_type, normalized_format, normalized_dimension)"
      and "find (\<lambda>t. t_thumb_key t = build_thumb_key os item normalized_dimension normalized_format) db =
          Some existing"
      and "\<not> retry_eligible now existing"
    using that thumb_to_snapshot_of [of existing]
    by (simp add: request_thumbnail_halves lookup_or_admit_def)
  have rest: "(distinct (map t_id db) \<and> distinct (map t_thumb_key db) \<longrightarrow>
      distinct (map t_id
        (fst (request_thumbnail cfg os now files roots db file_id max_dimension output_format))) \<and>
      distinct (map t_thumb_key
        (fst (request_thumbnail cfg os now files roots db file_id max_dimension output_format)))) \<and>
   (request_thumbnail cfg os now files roots db file_id max_dimension output_format = (db1, Inr snap) \<and>
    \<not> (ts_status snap = T_FAILED \<and>
       (case ts_retry_after snap of None \<Rightarrow> True | Some retry_after \<Rightarrow> retry_after \<le> now')) \<longrightarrow>
      request_thumbnail cfg os now' files roots db1 file_id max_dimension output_format =
        (db1, Inr snap) \<and>
      (\<exists>row \<in> set db1. snapshot_of row snap))"
  proof (cases "request_target cfg os files roots file_id max_dimension output_format")
    case (Inl e)
    then show ?thesis
      by (simp add: request_thumbnail_halves)
  next
    case (Inr target)
    obtain i mt nf nd where target: "target = (i, mt, nf, nd)"
      by (cases target) auto
    have eq: "request_thumbnail cfg os t files roots d file_id max_dimension output_format =
        lookup_or_admit cfg os t d i mt nf nd" for t d
      using Inr target by (simp add: request_thumbnail_halves)
    show ?thesis
      unfolding eq
      using lookup_or_admit_distinct [of db cfg os now i mt nf nd]
        lookup_or_admit_again [of cfg os now db i mt nf nd db1 snap now']
      by blast
  qed
  show ?thesis
    using rest last by blast
qed

lemma ex_request_target:
  "request_target ex_thumb_cfg ex_platform ex_files ex_roots 1 None None =
     Inr (ex_file 1 ''media/a.jpg'', IMAGE, JPEG, 256)"
  "request_target ex_thumb_cfg ex_platform ex_files ex_roots 2 None None =
     Inr (ex_file 2 ''media/b.jpg'', IMAGE, JPEG, 256)"
  by code_simp+

lemma ex_build_thumb_key:
  "build_thumb_key ex_platform (ex_file 1 ''media/a.jpg'') 256 JPEG =
     ''1:meta:1024:1700000000000000000:256:jpeg:thumb-v2''"
  "build_thumb_key ex_platform (ex_file 2 ''media/b.jpg'') 256 JPEG =
     ''2:meta:1024:1700000000000000000:256:jpeg:thumb-v2''"
  by (simp_all add: build_thumb_key_def ex_platform_def ex_file_def py_str_int_def nat_decimal.simps)

lemma ex_thumbnail_keys:
  "t_thumb_key ex_failed_thumbnail = ''1:meta:1024:1700000000000000000:256:jpeg:thumb-v2''"
  "t_thumb_key ex_queued_thumbnail = ''2:meta:1024:1700000000000000000:256:jpeg:thumb-v2''"
  "t_id ex_failed_thumbnail = 1" "t_id ex_queued_thumbnail = 2"
  "t_status ex_failed_thumbnail = T_FAILED" "t_retry_after ex_failed_thumbnail = Some 50"
  "t_status ex_queued_thumbnail = T_PENDING"
  by (simp_all add: ex_failed_thumbnail_def ex_queued_thumbnail_def queued_row_def build_thumb_key_def
      ex_platform_def ex_file_def py_str_int_def nat_decimal.simps next_rowid_def)

lemma ex_request_second_file:
  "request_thumbnail ex_thumb_cfg ex_platform 100 ex_files ex_roots [ex_failed_thumbnail] 2 None None =
     ([ex_failed_thumbnail, ex_queued_thumbnail], Inr (thumb_to_snapshot ex_queued_thumbnail))"
proof -
  have none: "find (\<lambda>t. t_thumb_key t = build_thumb_key ex_platform (ex_file 2 ''media/b.jpg'') 256 JPEG)
      [ex_failed_thumbnail] = None"
    by (simp add: ex_thumbnail_keys ex_build_thumb_key)
  have room: "int (queue_depth [ex_failed_thumbnail]) < thumbnail_queue_capacity ex_thumb_cfg"
    by (simp add: queue_depth_def ex_thumbnail_keys ex_thumb_cfg_def)
  show ?thesis
    using none room
    by (simp add: request_thumbnail_halves ex_request_target lookup_or_admit_def
        ex_queued_thumbnail_def)
qed

lemma ex_request_first_file_again:
  "request_thumbnail ex_thumb_cfg ex_platform 100 ex_files ex_roots
      [ex_failed_thumbnail, ex_queued_thumbnail] 1 None None =
     ([reset_row 100 ex_failed_thumbnail, ex_queued_thumbnail],
      Inr (thumb_to_snapshot (reset_row 100 ex_failed_thumbnail)))"
proof -
  have found: "find (\<lambda>t. t_thumb_key t = build_thumb_key ex_platform (ex_file 1 ''media/a.jpg'') 256 JPEG)
      [ex_failed_thumbnail, ex_queued_thumbnail] = Some ex_failed_thumbnail"
    by (simp add: ex_thumbnail_keys ex_build_thumb_key)
  have eligible: "retry_eligible 100 ex_failed_thumbnail"
    by (simp add: retry_eligible_def ex_thumbnail_keys)
  have upd: "update_thumbnail [ex_failed_thumbnail, ex_queued_thumbnail] (reset_row 100 ex_failed_thumbnail) =
      [reset_row 100 ex_failed_thumbnail, ex_queued_thumbnail]"
    by (simp add: update_thumbnail_def reset_row_fields ex_thumbnail_keys)
  show ?thesis
    using found eligible upd
    by (simp add: request_thumbnail_halves ex_request_target lookup_or_admit_def)
qed

theorem request_thumbnail_idempotent_witness:
  "distinct (map t_id [ex_failed_thumbnail]) \<and> distinct (map t_thumb_key [ex_failed_thumbnail]) \<and>
   request_thumbnail ex_thumb_cfg ex_platform 100 ex_files ex_roots [ex_failed_thumbnail] 2 None None =
     ([ex_failed_thumbnail, ex_queued_thumbnail], Inr (thumb_to_snapshot ex_queued_thumbnail)) \<and>
   ts_status (thumb_to_snapshot ex_queued_thumbnail) = T_PENDING \<and>
   distinct (map t_id [ex_failed_thumbnail, ex_queued_thumbnail]) \<and>
   distinct (map t_thumb_key [ex_failed_thumbnail, ex_queued_thumbnail]) \<and>
   request_thumbnail ex_thumb_cfg ex_platform 200 ex_files ex_roots
      [ex_failed_thumbnail, ex_queued_thumbnail] 2 None None =
     ([ex_failed_thumbnail, ex_queued_thumbnail], Inr (thumb_to_snapshot ex_queued_thumbnail)) \<and>
   ts_id (thumb_to_snapshot ex_queued_thumbnail) = 2 \<and>
   (\<exists>row. row \<in> set [ex_failed_thumbnail, ex_queued_thumbnail] \<and>
      snapshot_of row (thumb_to_snapshot ex_queued_thumbnail))"
proof -
  have d: "distinct (map t_id [ex_failed_thumbnail])" "distinct (map t_thumb_key [ex_failed_thumbnail])"
    by simp_all
  have st: "ts_status (thumb_to_snapshot ex_queued_thumbnail) = T_PENDING"
    "ts_id (thumb_to_snapshot ex_queued_thumbnail) = 2"
    by (simp_all add: thumb_to_snapshot_def ex_thumbnail_keys)
  note first = ex_request_second_file
  have later: "\<not> (ts_status (thumb_to_snapshot ex_queued_thumbnail) = T_FAILED \<and>
       (case ts_retry_after (thumb_to_snapshot ex_queued_thumbnail) of
          None \<Rightarrow> True | Some retry_after \<Rightarrow> retry_after \<le> 200))"
    by (simp add: st)
  note T = request_thumbnail_idempotent [where db = "[ex_failed_thumbnail]" and cfg = ex_thumb_cfg
      and os = ex_platform and now = 100 and files = ex_files and roots = ex_roots and file_id = 2
      and max_dimension = None and output_format = None
      and ?db1.0 = "[ex_failed_thumbnail, ex_queued_thumbnail]"
      and snap = "thumb_to_snapshot ex_queued_thumbnail" and now' = 200]
  have a: "distinct (map t_id [ex_failed_thumbnail, ex_queued_thumbnail]) \<and>
      distinct (map t_thumb_key [ex_failed_thumbnail, ex_queued_thumbnail])"
    using T d unfolding first by simp
  have b: "request_thumbnail ex_thumb_cfg ex_platform 200 ex_files ex_roots
      [ex_failed_thumbnail, ex_queued_thumbnail] 2 None None =
     ([ex_failed_thumbnail, ex_queued_thumbnail], Inr (thumb_to_snapshot ex_queued_thumbnail)) \<and>
     (\<exists>row \<in> set [ex_failed_thumbnail, ex_queued_thumbnail].
        snapshot_of row (thumb_to_snapshot ex_queued_thumbnail))"
    using T first later by blast
  show ?thesis
    using d first st a b by blast
qed

subsection \<open>The depth of the queue\<close>

lemma queue_depth_append:
  "queue_depth (db @ [q]) = queue_depth db + (if t_status q \<in> {T_PENDING, T_RUNNING} then 1 else 0)"
  by (simp add: queue_depth_def)

text \<open>The conditional insert keeps the queue within its capacity.\<close>

lemma lookup_or_admit_insert_depth:
  assumes "find (\<lambda>t. t_thumb_key t = build_thumb_key os item nd nf) db = None"
    and "int (queue_depth db) \<le> thumbnail_queue_capacity cfg"
  shows "int (queue_depth (fst (lookup_or_admit cfg os now db item mt nf nd))) \<le>
         thumbnail_queue_capacity cfg"
  using assms by (simp add: lookup_or_admit_def queue_depth_append queued_row_fields)

text \<open>\<open>prune_group_thumbnails\<close> deletes no pending or running row.\<close>

lemma prune_group_thumbnails_depth:
  "queue_depth (fst (prune_group_thumbnails db group_key)) = queue_depth db"
proof -
  have "filter (\<lambda>t. t_status t \<in> {T_PENDING, T_RUNNING})
          (filter (\<lambda>t. \<not> (t_group_key t = Some g \<and> t_status t \<in> {T_READY, T_FAILED})) db) =
        filter (\<lambda>t. t_status t \<in> {T_PENDING, T_RUNNING}) db" for g
    by (induction db) auto
  then show ?thesis
    by (simp add: prune_group_thumbnails_def queue_depth_def Let_def)
qed

text \<open>The reset of a failed row adds one to the depth of the queue, whatever the capacity.\<close>

lemma update_thumbnail_depth:
  assumes "distinct (map t_id db)" "e \<in> set db" "t_id e' = t_id e"
    "t_status e \<notin> {T_PENDING, T_RUNNING}" "t_status e' \<in> {T_PENDING, T_RUNNING}"
  shows "queue_depth (update_thumbnail db e') = queue_depth db + 1"
  using assms
proof (induction db)
  case Nil
  then show ?case by simp
next
  case (Cons x xs)
  show ?case
  proof (cases "x = e")
    case True
    have "t_id t \<noteq> t_id e'" if "t \<in> set xs" for t
      using Cons.prems(1,3) True that by (auto simp: image_iff)
    then have "update_thumbnail xs e' = xs"
      by (simp add: update_thumbnail_def map_idI)
    then have "update_thumbnail (x # xs) e' = e' # xs"
      using True Cons.prems(3) by (simp add: update_thumbnail_def)
    then show ?thesis
      using True Cons.prems(4,5) by (simp add: queue_depth_def)
  next
    case False
    then have mem: "e \<in> set xs"
      using Cons.prems(2) by simp
    then have "t_id x \<noteq> t_id e'"
      using Cons.prems(1,3) by (auto simp: image_iff)
    then have "update_thumbnail (x # xs) e' = x # update_thumbnail xs e'"
      by (simp add: update_thumbnail_def)
    moreover have "queue_depth (update_thumbnail xs e') = queue_depth xs + 1"
      using Cons.IH Cons.prems mem by simp
    ultimately show ?thesis
      by (simp add: queue_depth_def)
  qed
qed

lemma lookup_or_admit_reset_depth:
  assumes "find (\<lambda>t. t_thumb_key t = build_thumb_key os item nd nf) db = Some e"
    and "retry_eligible now e" and "distinct (map t_id db)"
  shows "queue_depth (fst (lookup_or_admit cfg os now db item mt nf nd)) = queue_depth db + 1"
proof -
  have mem: "e \<in> set db"
    using find_Some_key [OF assms(1)] by simp
  have "t_status e = T_FAILED"
    using assms(2) by (simp add: retry_eligible_def)
  then have out: "t_status e \<notin> {T_PENDING, T_RUNNING}"
    by simp
  have id: "t_id (reset_row now e) = t_id e"
    and queued: "t_status (reset_row now e) \<in> {T_PENDING, T_RUNNING}"
    by (simp_all add: reset_row_fields)
  have "queue_depth (update_thumbnail db (reset_row now e)) = queue_depth db + 1"
    by (rule update_thumbnail_depth [OF assms(3) mem id out queued])
  then show ?thesis
    using assms(1,2) by (simp add: lookup_or_admit_def)
qed

text \<open>
  Claim C2 fails on the code.  With a capacity of one, a table that holds a failed row of the
  first file has depth zero.  A request for the second file is admitted by the conditional
  insert and brings the depth to one, the capacity.  A request for the first file, after its
  \<open>retry_after\<close>, then takes the reset path, which does not look at the capacity: the failed
  row is made pending and the depth is two.
\<close>

theorem request_thumbnail_reset_exceeds_capacity:
  "thumbnail_queue_capacity ex_thumb_cfg = 1 \<and>
   queue_depth [ex_failed_thumbnail] = 0 \<and>
   request_thumbnail ex_thumb_cfg ex_platform 100 ex_files ex_roots [ex_failed_thumbnail] 2 None None =
     ([ex_failed_thumbnail, ex_queued_thumbnail], Inr (thumb_to_snapshot ex_queued_thumbnail)) \<and>
   queue_depth [ex_failed_thumbnail, ex_queued_thumbnail] = 1 \<and>
   t_status ex_failed_thumbnail = T_FAILED \<and> t_retry_after ex_failed_thumbnail = Some 50 \<and>
   request_thumbnail ex_thumb_cfg ex_platform 100 ex_files ex_roots
      [ex_failed_thumbnail, ex_queued_thumbnail] 1 None None =
     ([reset_row 100 ex_failed_thumbnail, ex_queued_thumbnail],
      Inr (thumb_to_snapshot (reset_row 100 ex_failed_thumbnail))) \<and>
   t_status (reset_row 100 ex_failed_thumbnail) = T_PENDING \<and>
   queue_depth [reset_row 100 ex_failed_thumbnail, ex_queued_thumbnail] = 2"
  using ex_request_second_file ex_request_first_file_again
  by (simp add: queue_depth_def ex_thumbnail_keys reset_row_fields ex_thumb_cfg_def)

end
